theory Spec2Isabelle
  imports Complex_Main "HOL-Library.Word"
begin

section \<open>JavaScript strings\<close>

text \<open>
  A JavaScript string is a sequence of UTF-16 code units. All string operations the
  sources use (\<open>trim\<close>, \<open>startsWith\<close>, \<open>endsWith\<close>, \<open>includes\<close>, \<open>indexOf\<close>,
  \<open>substring\<close>, \<open>split\<close>, \<open>+=\<close>) work on code units, so a string is a list of 16-bit words.
\<close>

type_synonym jschar = "16 word"
type_synonym jsstring = "jschar list"

definition js :: "string \<Rightarrow> jsstring" where
  \<open>js s = map of_char s\<close>

definition newline :: jschar where
  \<open>newline = 0xA\<close>

definition is_ws :: "jschar \<Rightarrow> bool" where
  \<comment> \<open>The code units \<open>String.prototype.trim\<close> strips: ECMAScript WhiteSpace and LineTerminator.\<close>
  \<open>is_ws c = (c \<in> set [0x9, 0xA, 0xB, 0xC, 0xD, 0x20, 0xA0, 0x1680,
      0x2000, 0x2001, 0x2002, 0x2003, 0x2004, 0x2005, 0x2006, 0x2007, 0x2008, 0x2009, 0x200A,
      0x2028, 0x2029, 0x202F, 0x205F, 0x3000, 0xFEFF])\<close>

definition trim :: "jsstring \<Rightarrow> jsstring" where
  \<open>trim s = rev (dropWhile is_ws (rev (dropWhile is_ws s)))\<close>

definition startsWith :: "jsstring \<Rightarrow> jsstring \<Rightarrow> bool" where
  \<open>startsWith s p = (take (length p) s = p)\<close>

definition endsWith :: "jsstring \<Rightarrow> jsstring \<Rightarrow> bool" where
  \<open>endsWith s p = (length p \<le> length s \<and> drop (length s - length p) s = p)\<close>

definition js_includes :: "jsstring \<Rightarrow> jschar \<Rightarrow> bool" where
  \<open>js_includes s c = (c \<in> set s)\<close>

definition indexOf :: "jsstring \<Rightarrow> jschar \<Rightarrow> int" where
  \<open>indexOf s c = (if c \<in> set s then int (length (takeWhile (\<lambda>d. d \<noteq> c) s)) else - 1)\<close>

definition substring :: "jsstring \<Rightarrow> int \<Rightarrow> int \<Rightarrow> jsstring" where
  \<comment> \<open>\<open>s.substring(a, b)\<close> for \<open>a \<le> b\<close>; arguments below 0 count as 0, above the length as the length.\<close>
  \<open>substring s a b = drop (nat a) (take (nat b) s)\<close>

definition substring_from :: "jsstring \<Rightarrow> int \<Rightarrow> jsstring" where
  \<comment> \<open>\<open>s.substring(a)\<close>\<close>
  \<open>substring_from s a = drop (nat a) s\<close>

fun split_nl :: "jsstring \<Rightarrow> jsstring list" where
  \<comment> \<open>\<open>s.split('\n')\<close>: the pieces between line feeds; never empty.\<close>
  \<open>split_nl [] = [[]]\<close>
| \<open>split_nl (c # cs) =
     (if c = newline then [] # split_nl cs
      else (case split_nl cs of [] \<Rightarrow> [[c]] | l # ls \<Rightarrow> (c # l) # ls))\<close>

fun join_strings :: "jsstring \<Rightarrow> jsstring list \<Rightarrow> jsstring" where
  \<open>join_strings sep [] = []\<close>
| \<open>join_strings sep [s] = s\<close>
| \<open>join_strings sep (s # t # ss) = s @ sep @ join_strings sep (t # ss)\<close>

definition is_high_surrogate :: "jschar \<Rightarrow> bool" where
  \<open>is_high_surrogate c = (0xD800 \<le> c \<and> c \<le> 0xDBFF)\<close>

definition is_low_surrogate :: "jschar \<Rightarrow> bool" where
  \<open>is_low_surrogate c = (0xDC00 \<le> c \<and> c \<le> 0xDFFF)\<close>

fun code_points :: "jsstring \<Rightarrow> jsstring list" where
  \<comment> \<open>The string iterator: one element per code point, a surrogate pair staying together.\<close>
  \<open>code_points [] = []\<close>
| \<open>code_points [c] = [[c]]\<close>
| \<open>code_points (c # d # cs) =
     (if is_high_surrogate c \<and> is_low_surrogate d then [c, d] # code_points cs
      else [c] # code_points (d # cs))\<close>

fun decimal :: "nat \<Rightarrow> jsstring" where
  \<comment> \<open>The decimal name of an array index, as a property key.\<close>
  \<open>decimal n = (if n < 10 then [48 + of_nat n] else decimal (n div 10) @ [48 + of_nat (n mod 10)])\<close>

declare decimal.simps [simp del]


section \<open>JavaScript values\<close>

text \<open>
  The values \<open>JSON.parse\<close> produces, and \<open>undefined\<close>. A number is a real, as every finite
  double is: the parser only tests numbers for truthiness and stores them; it computes nothing
  with them. An object lists its own properties in order, no name twice.
\<close>

datatype jsval =
    JUndefined
  | JNull
  | JBool bool
  | JNum real
  | JStr jsstring
  | JArr "jsval list"
  | JObj "(jsstring \<times> jsval) list"

datatype js_error = JsError (constructor_name: jsstring)

definition TypeError :: js_error where
  \<open>TypeError = JsError (js ''TypeError'')\<close>

definition SyntaxError :: js_error where
  \<open>SyntaxError = JsError (js ''SyntaxError'')\<close>

fun truthy :: "jsval \<Rightarrow> bool" where
  \<open>truthy JUndefined = False\<close>
| \<open>truthy JNull = False\<close>
| \<open>truthy (JBool b) = b\<close>
| \<open>truthy (JNum x) = (x \<noteq> 0)\<close>
| \<open>truthy (JStr s) = (s \<noteq> [])\<close>
| \<open>truthy (JArr xs) = True\<close>
| \<open>truthy (JObj kvs) = True\<close>

definition js_or :: "jsval \<Rightarrow> jsval \<Rightarrow> jsval" where
  \<comment> \<open>\<open>a || b\<close>\<close>
  \<open>js_or a b = (if truthy a then a else b)\<close>

fun js_get :: "jsval \<Rightarrow> jsstring \<Rightarrow> jsval" where
  \<comment> \<open>Reading a property of a value that is neither \<open>undefined\<close> nor \<open>null\<close>. The names the
      sources read (\<open>type\<close>, \<open>subtype\<close>, \<open>message\<close>, \<open>content\<close>, \<open>text\<close>, \<open>is_error\<close>, ...) are
      properties of no array, string, number or boolean, so only an object can hold them.\<close>
  \<open>js_get (JObj kvs) k = (case map_of kvs k of None \<Rightarrow> JUndefined | Some v \<Rightarrow> v)\<close>
| \<open>js_get v k = JUndefined\<close>

definition get_prop :: "jsval \<Rightarrow> jsstring \<Rightarrow> js_error + jsval" where
  \<comment> \<open>\<open>v.k\<close>: a TypeError on \<open>undefined\<close> and \<open>null\<close>.\<close>
  \<open>get_prop v k = (if v = JUndefined \<or> v = JNull then Inl TypeError else Inr (js_get v k))\<close>

definition optional_get :: "jsval \<Rightarrow> jsstring \<Rightarrow> jsval" where
  \<comment> \<open>\<open>v?.k\<close>\<close>
  \<open>optional_get v k = (if v = JUndefined \<or> v = JNull then JUndefined else js_get v k)\<close>

fun typeof_object :: "jsval \<Rightarrow> bool" where
  \<comment> \<open>\<open>typeof v === 'object'\<close>, which holds of \<open>null\<close> too.\<close>
  \<open>typeof_object JNull = True\<close>
| \<open>typeof_object (JArr xs) = True\<close>
| \<open>typeof_object (JObj kvs) = True\<close>
| \<open>typeof_object v = False\<close>

fun isArray :: "jsval \<Rightarrow> bool" where
  \<open>isArray (JArr xs) = True\<close>
| \<open>isArray v = False\<close>

fun iterate :: "jsval \<Rightarrow> js_error + jsval list" where
  \<comment> \<open>What \<open>for (const x of v)\<close> runs over: arrays and strings are iterable, all else throws.\<close>
  \<open>iterate (JArr xs) = Inr xs\<close>
| \<open>iterate (JStr s) = Inr (map JStr (code_points s))\<close>
| \<open>iterate v = Inl TypeError\<close>

fun indexed :: "nat \<Rightarrow> 'a list \<Rightarrow> (jsstring \<times> 'a) list" where
  \<open>indexed i [] = []\<close>
| \<open>indexed i (x # xs) = (decimal i, x) # indexed (Suc i) xs\<close>

fun spread :: "jsval \<Rightarrow> (jsstring \<times> jsval) list" where
  \<comment> \<open>The own enumerable properties \<open>{...v}\<close> copies.\<close>
  \<open>spread (JObj kvs) = kvs\<close>
| \<open>spread (JArr xs) = indexed 0 xs\<close>
| \<open>spread (JStr s) = indexed 0 (map (\<lambda>c. JStr [c]) s)\<close>
| \<open>spread v = []\<close>

fun set_prop :: "(jsstring \<times> jsval) list \<Rightarrow> jsstring \<Rightarrow> jsval \<Rightarrow> (jsstring \<times> jsval) list" where
  \<comment> \<open>A later property of an object literal replaces the value of an earlier one of that name
      in place, and is added at the end otherwise.\<close>
  \<open>set_prop [] k v = [(k, v)]\<close>
| \<open>set_prop ((k', v') # kvs) k v = (if k' = k then (k, v) # kvs else (k', v') # set_prop kvs k v)\<close>

fun to_string :: "(real \<Rightarrow> jsstring) \<Rightarrow> jsval \<Rightarrow> jsstring" where
  \<comment> \<open>\<open>String(v)\<close>; how a number prints is the parameter.\<close>
  \<open>to_string N JUndefined = js ''undefined''\<close>
| \<open>to_string N JNull = js ''null''\<close>
| \<open>to_string N (JBool b) = (if b then js ''true'' else js ''false'')\<close>
| \<open>to_string N (JNum x) = N x\<close>
| \<open>to_string N (JStr s) = s\<close>
| \<open>to_string N (JArr xs) =
     join_strings (js '','')
       (map (\<lambda>x. if x = JUndefined \<or> x = JNull then [] else to_string N x) xs)\<close>
| \<open>to_string N (JObj kvs) = js ''[object Object]''\<close>

definition array_join :: "(real \<Rightarrow> jsstring) \<Rightarrow> jsstring \<Rightarrow> jsval list \<Rightarrow> jsstring" where
  \<comment> \<open>\<open>xs.join(sep)\<close>\<close>
  \<open>array_join N sep xs =
     join_strings sep (map (\<lambda>x. if x = JUndefined \<or> x = JNull then [] else to_string N x) xs)\<close>

text \<open>
  The built-ins of the JavaScript runtime that the repository calls but does not define:
  \<open>JSON.parse\<close> (a SyntaxError on text that is not JSON), the printing of a number, and \<open>+\<close>.
\<close>

record js_env =
  JSON_parse :: "jsstring \<Rightarrow> js_error + jsval"
  Number_toString :: "real \<Rightarrow> jsstring"
  js_plus :: "jsval \<Rightarrow> jsval \<Rightarrow> jsval"

definition and_then :: "js_error + 'a \<Rightarrow> ('a \<Rightarrow> js_error + 'b) \<Rightarrow> js_error + 'b" where
  \<comment> \<open>Sequencing of steps that may throw: the first exception ends the computation.\<close>
  \<open>and_then m f = (case m of Inl e \<Rightarrow> Inl e | Inr v \<Rightarrow> f v)\<close>


section \<open>The line parser\<close>

text \<open>
  The fields \<open>ClaudeResponseParser\<close> and \<open>ClaudeResponseImpl\<close> share are one record, which
  each of the two extends. A field that is absent holds \<open>undefined\<close>. The events are the objects
  the parser builds at run time, so they are JavaScript values, whatever their declared types.
\<close>

record aggregate =
  system_init :: jsval
  assistant_responses :: "jsval list"
  user_responses :: "jsval list"
  result_summary :: jsval

record parser_state = aggregate +
  raw_lines :: "jsstring list"
  events :: "jsval list"

record claude_response = aggregate +
  raw_response :: jsstring

definition new_parser :: parser_state where
  \<open>new_parser = \<lparr>system_init = JUndefined, assistant_responses = [], user_responses = [],
     result_summary = JUndefined, raw_lines = [], events = []\<rparr>\<close>

fun assistant_content_list :: "jsval list \<Rightarrow> jsval list \<Rightarrow> js_error + jsval list" where
  \<comment> \<open>The loop over \<open>message_data.content\<close> in the assistant branch; the first argument is
      \<open>content_list\<close> so far. An unknown content type is skipped.\<close>
  \<open>assistant_content_list content_list [] = Inr content_list\<close>
| \<open>assistant_content_list content_list (content # rest) =
     (case get_prop content (js ''type'') of
        Inl e \<Rightarrow> Inl e
      | Inr content_type \<Rightarrow>
          if content_type = JStr (js ''text'') then
            assistant_content_list (content_list @ [content]) rest
          else if content_type = JStr (js ''thinking'') then
            assistant_content_list (content_list @ [content]) rest
          else if content_type = JStr (js ''tool_use'') then
            assistant_content_list (content_list @ [content]) rest
          else assistant_content_list content_list rest)\<close>

definition parse_assistant :: "jsval \<Rightarrow> js_error + jsval" where
  \<comment> \<open>The assistant branch of \<open>parse_line\<close>, up to the response it builds.\<close>
  \<open>parse_assistant data =
     and_then (get_prop data (js ''message'')) (\<lambda>m.
     let message_data = js_or m (JObj []) in
     and_then (get_prop message_data (js ''content'')) (\<lambda>c.
     and_then (iterate (js_or c (JArr []))) (\<lambda>contents.
     and_then (assistant_content_list [] contents) (\<lambda>content_list.
     let assistant_msg = JObj (set_prop (spread message_data) (js ''content'') (JArr content_list)) in
     and_then (get_prop data (js ''parent_tool_use_id'')) (\<lambda>parent.
     and_then (get_prop data (js ''session_id'')) (\<lambda>sid.
     Inr (JObj [(js ''type'', JStr (js ''assistant'')), (js ''message'', assistant_msg),
                (js ''parent_tool_use_id'', parent), (js ''session_id'', sid)])))))))\<close>

fun text_parts_loop :: "jsval list \<Rightarrow> jsval list \<Rightarrow> js_error + jsval list" where
  \<comment> \<open>The loop over the array \<open>content_field\<close>; the first argument is \<open>text_parts\<close> so far.\<close>
  \<open>text_parts_loop text_parts [] = Inr text_parts\<close>
| \<open>text_parts_loop text_parts (content_obj # rest) =
     (if typeof_object content_obj then
        (case get_prop content_obj (js ''type'') of
           Inl e \<Rightarrow> Inl e
         | Inr t \<Rightarrow>
             if t = JStr (js ''text'') then
               (case get_prop content_obj (js ''text'') of
                  Inl e \<Rightarrow> Inl e
                | Inr tx \<Rightarrow> text_parts_loop (text_parts @ [js_or tx (JStr [])]) rest)
             else text_parts_loop text_parts rest)
      else text_parts_loop text_parts rest)\<close>

definition content_text :: "js_env \<Rightarrow> jsval \<Rightarrow> js_error + jsstring" where
  \<comment> \<open>\<open>content_text\<close> of a tool result, from \<open>content_field\<close>.\<close>
  \<open>content_text E content_field =
     (if isArray content_field then
        and_then (iterate content_field) (\<lambda>objs.
        and_then (text_parts_loop [] objs) (\<lambda>text_parts.
        Inr (array_join (Number_toString E) [] text_parts)))
      else Inr (to_string (Number_toString E) content_field))\<close>

definition tool_result :: "js_env \<Rightarrow> jsval \<Rightarrow> js_error + jsval" where
  \<comment> \<open>The \<open>ToolResultContent\<close> built from one block of type \<open>tool_result\<close>.\<close>
  \<open>tool_result E content =
     and_then (get_prop content (js ''content'')) (\<lambda>c.
     and_then (content_text E (js_or c (JStr []))) (\<lambda>text.
     and_then (get_prop content (js ''tool_use_id'')) (\<lambda>tid.
     and_then (get_prop content (js ''is_error'')) (\<lambda>ie.
     Inr (JObj [(js ''tool_use_id'', js_or tid (JStr [])), (js ''type'', JStr (js ''tool_result'')),
                (js ''content'', JStr text), (js ''is_error'', js_or ie (JBool False))])))))\<close>

fun user_content_list :: "js_env \<Rightarrow> jsval list \<Rightarrow> jsval list \<Rightarrow> js_error + jsval list" where
  \<comment> \<open>The loop over \<open>message_data.content\<close> in the user branch.\<close>
  \<open>user_content_list E content_list [] = Inr content_list\<close>
| \<open>user_content_list E content_list (content # rest) =
     (case get_prop content (js ''type'') of
        Inl e \<Rightarrow> Inl e
      | Inr t \<Rightarrow>
          if t = JStr (js ''tool_result'') then
            (case tool_result E content of
               Inl e \<Rightarrow> Inl e
             | Inr tr \<Rightarrow> user_content_list E (content_list @ [tr]) rest)
          else user_content_list E content_list rest)\<close>

definition parse_user :: "js_env \<Rightarrow> jsval \<Rightarrow> js_error + jsval" where
  \<comment> \<open>The user branch of \<open>parse_line\<close>, up to the response it builds.\<close>
  \<open>parse_user E data =
     and_then (get_prop data (js ''message'')) (\<lambda>m.
     let message_data = js_or m (JObj []) in
     and_then (get_prop message_data (js ''content'')) (\<lambda>c.
     and_then (iterate (js_or c (JArr []))) (\<lambda>contents.
     and_then (user_content_list E [] contents) (\<lambda>content_list.
     let user_msg = JObj (set_prop (spread message_data) (js ''content'') (JArr content_list)) in
     and_then (get_prop data (js ''parent_tool_use_id'')) (\<lambda>parent.
     and_then (get_prop data (js ''session_id'')) (\<lambda>sid.
     Inr (JObj [(js ''type'', JStr (js ''user'')), (js ''message'', user_msg),
                (js ''parent_tool_use_id'', parent), (js ''session_id'', sid)])))))))\<close>

definition classify :: "js_env \<Rightarrow> parser_state \<Rightarrow> jsval \<Rightarrow> js_error + parser_state \<times> jsval" where
  \<comment> \<open>\<open>parse_line\<close> from the test of \<open>data.type\<close> on: the new state and the value returned, or the
      exception thrown. Reading \<open>data.subtype\<close> throws exactly when reading \<open>data.type\<close> does.
      A result is stored as it was decoded: the cast \<open>data as ResultSummary\<close> checks nothing at
      run time and cannot throw, so the \<open>catch\<close> that would build a summary with defaults is
      never entered. An unknown type falls through to the final \<open>return null\<close>.\<close>
  \<open>classify E p data =
     and_then (get_prop data (js ''type'')) (\<lambda>ty.
     and_then (get_prop data (js ''subtype'')) (\<lambda>sub.
     if ty = JStr (js ''system'') \<and> sub = JStr (js ''init'') then
       Inr (p\<lparr>system_init := data\<rparr>, data)
     else if ty = JStr (js ''assistant'') then
       and_then (parse_assistant data) (\<lambda>assistant_response.
       Inr (p\<lparr>assistant_responses := assistant_responses p @ [assistant_response]\<rparr>,
            assistant_response))
     else if ty = JStr (js ''user'') then
       and_then (parse_user E data) (\<lambda>user_response.
       Inr (p\<lparr>user_responses := user_responses p @ [user_response]\<rparr>, user_response))
     else if ty = JStr (js ''result'') then
       Inr (p\<lparr>result_summary := data\<rparr>, data)
     else Inr (p, JNull)))\<close>

definition parse_line :: "js_env \<Rightarrow> parser_state \<Rightarrow> jsstring \<Rightarrow> parser_state \<times> jsval" where
  \<comment> \<open>The state after the call and the value returned (\<open>JNull\<close> for \<open>null\<close>). An exception
      inside the \<open>try\<close> is caught and gives \<open>null\<close>; the line and the decoded object were
      logged before anything after \<open>JSON.parse\<close> can throw, and stay logged.\<close>
  \<open>parse_line E p line =
     (if trim line = [] then (p, JNull)
      else
        let cleanLine = trim line in
        if \<not> startsWith cleanLine (js ''{'') then (p, JNull)
        else if \<not> endsWith cleanLine (js ''}'') then (p, JNull)
        else
          (case JSON_parse E cleanLine of
             Inl e \<Rightarrow> (p, JNull)
           | Inr data \<Rightarrow>
               let p' = p\<lparr>raw_lines := raw_lines p @ [cleanLine], events := events p @ [data]\<rparr> in
               (case classify E p' data of
                  Inl e \<Rightarrow> (p', JNull)
                | Inr r \<Rightarrow> r)))\<close>

fun parse_lines :: "js_env \<Rightarrow> parser_state \<Rightarrow> jsstring list \<Rightarrow> parser_state \<times> jsval list" where
  \<comment> \<open>The loop of \<open>parse_stream\<close>: \<open>parse_line\<close> on each line in turn. The second component
      lists what each call returned; \<open>parse_stream\<close> itself drops these values.\<close>
  \<open>parse_lines E p [] = (p, [])\<close>
| \<open>parse_lines E p (line # rest) =
     (let (p', r) = parse_line E p line;
          (p'', rs) = parse_lines E p' rest
      in (p'', r # rs))\<close>

definition parse_stream :: "js_env \<Rightarrow> parser_state \<Rightarrow> jsstring \<Rightarrow> parser_state \<times> claude_response" where
  \<open>parse_stream E p stream =
     (let lines = split_nl (trim stream);
          p' = fst (parse_lines E p lines)
      in (p', \<lparr>system_init = system_init p', assistant_responses = assistant_responses p',
               user_responses = user_responses p', result_summary = result_summary p',
               raw_response = stream\<rparr>))\<close>

definition parse_stream_events :: "js_env \<Rightarrow> parser_state \<Rightarrow> jsstring \<Rightarrow> jsval list" where
  \<comment> \<open>The classified events of a one-shot parse, in order: what \<open>parse_line\<close> returned on the
      lines of \<open>parse_stream\<close>, the \<open>null\<close>s of rejected lines left out.\<close>
  \<open>parse_stream_events E p stream =
     filter (\<lambda>r. r \<noteq> JNull) (snd (parse_lines E p (split_nl (trim stream))))\<close>

definition parse_claude_stream :: "js_env \<Rightarrow> jsstring \<Rightarrow> claude_response" where
  \<open>parse_claude_stream E stream = snd (parse_stream E new_parser stream)\<close>

definition get_cost :: "parser_state \<Rightarrow> jsval" where
  \<comment> \<open>\<open>this.result_summary?.total_cost_usd || null\<close>\<close>
  \<open>get_cost p = js_or (optional_get (result_summary p) (js ''total_cost_usd'')) JNull\<close>

definition was_successful :: "parser_state \<Rightarrow> js_error + bool" where
  \<comment> \<open>\<open>&&\<close> stops at the first false operand.\<close>
  \<open>was_successful p =
     (if result_summary p = JUndefined then Inr False
      else
        and_then (get_prop (result_summary p) (js ''is_error'')) (\<lambda>ie.
        if truthy ie then Inr False
        else
          and_then (get_prop (result_summary p) (js ''subtype'')) (\<lambda>sub.
          Inr (sub = JStr (js ''success'')))))\<close>


section \<open>The streaming parser\<close>

record stream_config =
  buffer_size :: nat
  timeout_between_chunks :: real
  yield_raw :: bool

definition DEFAULT_STREAM_CONFIG :: stream_config where
  \<open>DEFAULT_STREAM_CONFIG = \<lparr>buffer_size = 65536, timeout_between_chunks = 30, yield_raw = False\<rparr>\<close>

record streaming_parser =
  config :: stream_config
  buffer :: jsstring
  parser :: parser_state

definition new_streaming_parser :: "stream_config option \<Rightarrow> streaming_parser" where
  \<open>new_streaming_parser c =
     \<lparr>config = (case c of None \<Rightarrow> DEFAULT_STREAM_CONFIG | Some cfg \<Rightarrow> cfg), buffer = [],
      parser = new_parser\<rparr>\<close>

definition emit_line :: "js_env \<Rightarrow> stream_config \<Rightarrow> parser_state \<Rightarrow> jsstring \<Rightarrow> parser_state \<times> jsval list" where
  \<comment> \<open>What \<open>parse_chunk\<close> and \<open>flush\<close> both do with a trimmed line: the inner parser afterwards and
      the values yielded. In raw mode the line itself is yielded and the inner parser not called.\<close>
  \<open>emit_line E cfg p cleanLine =
     (if cleanLine \<noteq> [] \<and> startsWith cleanLine (js ''{'') then
        if yield_raw cfg then (p, [JStr cleanLine])
        else
          let (p', event) = parse_line E p cleanLine
          in (p', if truthy event then [event] else [])
      else (p, []))\<close>

function parse_chunk_loop :: "js_env \<Rightarrow> streaming_parser \<Rightarrow> streaming_parser \<times> jsval list" where
  \<comment> \<open>The \<open>while\<close> loop of \<open>parse_chunk\<close>: the parser afterwards and the values yielded, in order.\<close>
  \<open>parse_chunk_loop E sp =
     (if js_includes (buffer sp) newline then
        let newlineIndex = indexOf (buffer sp) newline;
            line = substring (buffer sp) 0 newlineIndex;
            rest = substring_from (buffer sp) (newlineIndex + 1);
            cleanLine = trim line;
            (p', ys) = emit_line E (config sp) (parser sp) cleanLine;
            (sp', zs) = parse_chunk_loop E (sp\<lparr>buffer := rest, parser := p'\<rparr>)
        in (sp', ys @ zs)
      else (sp, []))\<close>
  by pat_completeness auto
termination
proof (relation \<open>measure (\<lambda>(E, sp). length (buffer sp))\<close>)
  show \<open>wf (measure (\<lambda>(E, sp). length (buffer sp)))\<close> by simp
next
  fix E :: js_env and sp :: streaming_parser
    and newlineIndex line rest cleanLine x p' ys
  assume \<open>js_includes (buffer sp) newline\<close>
    and \<open>rest = substring_from (buffer sp) (newlineIndex + 1)\<close>
    and \<open>newlineIndex = indexOf (buffer sp) newline\<close>
  then show \<open>((E, sp\<lparr>buffer := rest, parser := p'\<rparr>), (E, sp)) \<in> measure (\<lambda>(E, sp). length (buffer sp))\<close>
    by (cases \<open>buffer sp\<close>) (auto simp: js_includes_def substring_from_def indexOf_def)
qed

definition parse_chunk :: "js_env \<Rightarrow> streaming_parser \<Rightarrow> jsstring \<Rightarrow> streaming_parser \<times> jsval list" where
  \<open>parse_chunk E sp chunk = parse_chunk_loop E (sp\<lparr>buffer := buffer sp @ chunk\<rparr>)\<close>

definition flush :: "js_env \<Rightarrow> streaming_parser \<Rightarrow> streaming_parser \<times> jsval list" where
  \<open>flush E sp =
     (let cleanBuffer = trim (buffer sp);
          (p', ys) = emit_line E (config sp) (parser sp) cleanBuffer
      in (sp\<lparr>parser := p', buffer := []\<rparr>, ys))\<close>

fun feed_chunks :: "js_env \<Rightarrow> streaming_parser \<Rightarrow> jsstring list \<Rightarrow> streaming_parser \<times> jsval list" where
  \<comment> \<open>\<open>parse_chunk\<close> on each chunk of a source in turn.\<close>
  \<open>feed_chunks E sp [] = (sp, [])\<close>
| \<open>feed_chunks E sp (chunk # chunks) =
     (let (sp', ys) = parse_chunk E sp chunk;
          (sp'', zs) = feed_chunks E sp' chunks
      in (sp'', ys @ zs))\<close>

definition feed_and_flush :: "js_env \<Rightarrow> streaming_parser \<Rightarrow> jsstring list \<Rightarrow> streaming_parser \<times> jsval list" where
  \<comment> \<open>All chunks through \<open>parse_chunk\<close>, then one \<open>flush\<close>.\<close>
  \<open>feed_and_flush E sp chunks =
     (let (sp', ys) = feed_chunks E sp chunks;
          (sp'', zs) = flush E sp'
      in (sp'', ys @ zs))\<close>

definition stream_parse_generator :: "js_env \<Rightarrow> stream_config option \<Rightarrow> jsstring list \<Rightarrow> jsval list" where
  \<open>stream_parse_generator E c chunks = snd (feed_and_flush E (new_streaming_parser c) chunks)\<close>

section \<open>Rate limiting and retry\<close>

text \<open>
  A \<open>Date\<close> is its time value, the milliseconds \<open>getTime()\<close> returns; \<open>new Date()\<close> reads the
  clock, so every function that calls it takes the reading as an argument. Numbers of the
  configuration and delays are reals, with exact arithmetic in place of the rounding of doubles;
  the number of retries is an integer. The counters of the limiter are natural numbers: they
  start at 0 and are only incremented or reset.
\<close>

record retry_config =
  max_retries :: int
  initial_delay :: real
  max_delay :: real
  exponential_base :: real
  retry_on :: "jsstring list"

record rate_limit_config =
  requests_per_minute :: real
  requests_per_hour :: real
  burst_size :: real
  enabled :: bool

definition DEFAULT_RETRY_CONFIG :: retry_config where
  \<open>DEFAULT_RETRY_CONFIG = \<lparr>max_retries = 3, initial_delay = 1, max_delay = 60, exponential_base = 2,
     retry_on = [js ''TimeoutError'', js ''ConnectionError'']\<rparr>\<close>

definition DEFAULT_RATE_LIMIT_CONFIG :: rate_limit_config where
  \<open>DEFAULT_RATE_LIMIT_CONFIG = \<lparr>requests_per_minute = 60, requests_per_hour = 1000, burst_size = 10,
     enabled = True\<rparr>\<close>

record rate_limit_state =
  requests_this_minute :: nat
  requests_this_hour :: nat
  minute_reset_time :: int
  hour_reset_time :: int
  last_request_time :: "int option"

definition new_rate_limit_state :: "int \<Rightarrow> int \<Rightarrow> rate_limit_state" where
  \<comment> \<open>\<open>new RateLimitStateImpl()\<close>; the two field initialisers read the clock one after the other.\<close>
  \<open>new_rate_limit_state t1 t2 = \<lparr>requests_this_minute = 0, requests_this_hour = 0,
     minute_reset_time = t1, hour_reset_time = t2, last_request_time = None\<rparr>\<close>

definition should_delay :: "int \<Rightarrow> rate_limit_config \<Rightarrow> rate_limit_state \<Rightarrow> rate_limit_state \<times> bool \<times> real" where
  \<comment> \<open>The state after the call, and the pair returned.\<close>
  \<open>should_delay now cfg s =
     (let s1 = (if now - minute_reset_time s \<ge> 60000
                then s\<lparr>requests_this_minute := 0, minute_reset_time := now\<rparr> else s);
          s2 = (if now - hour_reset_time s1 \<ge> 3600000
                then s1\<lparr>requests_this_hour := 0, hour_reset_time := now\<rparr> else s1)
      in
        if real (requests_this_minute s2) \<ge> requests_per_minute cfg then
          (s2, True, max 0 (60 - real_of_int (now - minute_reset_time s2) / 1000))
        else if real (requests_this_hour s2) \<ge> requests_per_hour cfg then
          (s2, True, max 0 (3600 - real_of_int (now - hour_reset_time s2) / 1000))
        else (s2, False, 0))\<close>

definition record_request :: "int \<Rightarrow> rate_limit_state \<Rightarrow> rate_limit_state" where
  \<open>record_request now s =
     s\<lparr>requests_this_minute := requests_this_minute s + 1,
       requests_this_hour := requests_this_hour s + 1,
       last_request_time := Some now\<rparr>\<close>


section \<open>Sessions\<close>

record session =
  session_id :: jsval
  created_at :: int
  last_activity :: int
  message_history :: "jsval list"
  total_tokens :: jsval
  total_cost :: jsval
  metadata :: "(jsstring \<times> jsval) list"

definition new_session :: "int \<Rightarrow> int \<Rightarrow> session" where
  \<open>new_session t1 t2 = \<lparr>session_id = JUndefined, created_at = t1, last_activity = t2,
     message_history = [], total_tokens = JNum 0, total_cost = JNum 0, metadata = []\<rparr>\<close>

definition add_response :: "js_env \<Rightarrow> int \<Rightarrow> session \<Rightarrow> jsval \<Rightarrow> session \<times> js_error option" where
  \<comment> \<open>The session after the call, and the exception if one was thrown; what was assigned before
      the exception stays assigned.\<close>
  \<open>add_response E now s response =
     (let s1 = s\<lparr>message_history := message_history s @ [response], last_activity := now\<rparr> in
      case get_prop response (js ''type'') of
        Inl e \<Rightarrow> (s1, Some e)
      | Inr ty \<Rightarrow>
          if ty = JStr (js ''assistant'') then
            (case and_then (get_prop response (js ''message'')) (\<lambda>m. get_prop m (js ''usage'')) of
               Inl e \<Rightarrow> (s1, Some e)
             | Inr usage \<Rightarrow>
                 if truthy usage then
                   (s1\<lparr>total_tokens :=
                        js_plus E (total_tokens s1)
                          (js_plus E (js_get usage (js ''input_tokens''))
                                     (js_get usage (js ''output_tokens'')))\<rparr>, None)
                 else (s1, None))
          else (s1, None))\<close>

definition clear_history :: "session \<Rightarrow> session" where
  \<open>clear_history s = s\<lparr>message_history := [], total_tokens := JNum 0, total_cost := JNum 0\<rparr>\<close>


section \<open>The execution controller\<close>

text \<open>
  Of \<open>APIConfig\<close> the controller's control flow reads the four parts below; the others only shape
  the command line. Two names are changed because they are taken: the field \<open>session\<close> of
  \<open>APIConfig\<close> is \<open>session_options\<close>, the field \<open>config\<close> of \<open>ClaudeAPI\<close> is \<open>api_config\<close>.
\<close>

record session_config =
  maintain_context :: bool
  max_history_size :: real
  persist_to_file :: "jsstring option"
  auto_save :: bool

record api_configuration =
  retry :: retry_config
  rate_limit :: rate_limit_config
  streaming :: stream_config
  session_options :: session_config

text \<open>
  What the controller cannot decide is given from outside: what the clock shows at its successive
  readings, how the command of each attempt ends (an exception, or its standard output after exit
  code 0), and whether writing the session file at an attempt throws. The controller counts its
  readings of the clock in \<open>clock_reads\<close>. Building the command line, spawning and the timeout
  are inside \<open>run_command\<close>; \<open>sleep\<close> changes nothing but the time, which the clock shows.
\<close>

record world =
  clock :: "nat \<Rightarrow> int"
  run_command :: "nat \<Rightarrow> js_error + jsstring"
  save_session_error :: "nat \<Rightarrow> js_error option"

record claude_api =
  api_config :: api_configuration
  session :: "session option"
  rate_limiter :: "rate_limit_state option"
  clock_reads :: nat

definition new_claude_api :: "world \<Rightarrow> api_configuration \<Rightarrow> claude_api" where
  \<comment> \<open>The constructor, on a configuration already merged with the defaults.\<close>
  \<open>new_claude_api W cfg =
     (let n = (if maintain_context (session_options cfg) then 2 else 0) in
      \<lparr>api_config = cfg,
       session = (if maintain_context (session_options cfg)
                  then Some (new_session (clock W 0) (clock W 1)) else None),
       rate_limiter = (if enabled (rate_limit cfg)
                       then Some (new_rate_limit_state (clock W n) (clock W (n + 1))) else None),
       clock_reads = (if enabled (rate_limit cfg) then n + 2 else n)\<rparr>)\<close>

definition check_rate_limit :: "world \<Rightarrow> claude_api \<Rightarrow> claude_api" where
  \<open>check_rate_limit W a =
     (case rate_limiter a of
        None \<Rightarrow> a
      | Some rl \<Rightarrow>
          if \<not> enabled (rate_limit (api_config a)) then a
          else
            let (rl', delay, delay_seconds) =
                  should_delay (clock W (clock_reads a)) (rate_limit (api_config a)) rl
            in a\<lparr>rate_limiter := Some rl', clock_reads := Suc (clock_reads a)\<rparr>)\<close>

definition record_if_limited :: "world \<Rightarrow> claude_api \<Rightarrow> claude_api" where
  \<comment> \<open>\<open>if (this.rate_limiter) { this.rate_limiter.record_request(); }\<close>\<close>
  \<open>record_if_limited W a =
     (case rate_limiter a of
        None \<Rightarrow> a
      | Some rl \<Rightarrow>
          a\<lparr>rate_limiter := Some (record_request (clock W (clock_reads a)) rl),
            clock_reads := Suc (clock_reads a)\<rparr>)\<close>

definition should_retry :: "claude_api \<Rightarrow> js_error \<Rightarrow> bool" where
  \<open>should_retry a error = (constructor_name error \<in> set (retry_on (retry (api_config a))))\<close>

definition calculate_retry_delay :: "claude_api \<Rightarrow> nat \<Rightarrow> real" where
  \<open>calculate_retry_delay a attempt =
     min (initial_delay (retry (api_config a)) * exponential_base (retry (api_config a)) ^ attempt)
         (max_delay (retry (api_config a)))\<close>

fun add_responses :: "js_env \<Rightarrow> world \<Rightarrow> session \<Rightarrow> nat \<Rightarrow> jsval list \<Rightarrow> session \<times> nat \<times> js_error option" where
  \<comment> \<open>\<open>for (const resp of ...) { this.session.add_response(resp); }\<close>, the number of clock
      readings threaded through; the first exception ends the loop.\<close>
  \<open>add_responses E W s n [] = (s, n, None)\<close>
| \<open>add_responses E W s n (resp # rest) =
     (case add_response E (clock W n) s resp of
        (s', Some e) \<Rightarrow> (s', Suc n, Some e)
      | (s', None) \<Rightarrow> add_responses E W s' (Suc n) rest)\<close>

definition update_session :: "js_env \<Rightarrow> world \<Rightarrow> claude_api \<Rightarrow> claude_response \<Rightarrow> claude_api \<times> js_error option" where
  \<comment> \<open>The block \<open>if (this.session && response.system_init) { ... }\<close> of \<open>execute\<close>.\<close>
  \<open>update_session E W a response =
     (case session a of
        None \<Rightarrow> (a, None)
      | Some s \<Rightarrow>
          if \<not> truthy (system_init response) then (a, None)
          else
            let s1 = s\<lparr>session_id := js_get (system_init response) (js ''session_id'')\<rparr> in
            (case add_responses E W s1 (clock_reads a) (assistant_responses response) of
               (s2, n2, Some e) \<Rightarrow> (a\<lparr>session := Some s2, clock_reads := n2\<rparr>, Some e)
             | (s2, n2, None) \<Rightarrow>
                 (case add_responses E W s2 n2 (user_responses response) of
                    (s3, n3, Some e) \<Rightarrow> (a\<lparr>session := Some s3, clock_reads := n3\<rparr>, Some e)
                  | (s3, n3, None) \<Rightarrow>
                      let s4 = (if truthy (result_summary response)
                                then s3\<lparr>total_cost := js_plus E (total_cost s3)
                                       (js_get (result_summary response) (js ''total_cost_usd''))\<rparr>
                                else s3)
                      in (a\<lparr>session := Some s4, clock_reads := n3\<rparr>, None))))\<close>

definition saves_session :: "claude_api \<Rightarrow> bool" where
  \<comment> \<open>\<open>this.session && this.config.session.auto_save && this.config.session.persist_to_file\<close>\<close>
  \<open>saves_session a =
     (session a \<noteq> None \<and> auto_save (session_options (api_config a)) \<and>
      (case persist_to_file (session_options (api_config a)) of None \<Rightarrow> False | Some f \<Rightarrow> f \<noteq> []))\<close>

definition execute_attempt :: "js_env \<Rightarrow> world \<Rightarrow> claude_api \<Rightarrow> nat \<Rightarrow> claude_api \<times> (js_error + claude_response)" where
  \<comment> \<open>The \<open>try\<close> block of one pass of the retry loop: the controller afterwards, and the response
      returned or the exception that reaches the \<open>catch\<close>.\<close>
  \<open>execute_attempt E W a attempt =
     (let a1 = check_rate_limit W a in
      case run_command W attempt of
        Inl error \<Rightarrow> (a1, Inl error)
      | Inr stdout \<Rightarrow>
          let a2 = record_if_limited W a1;
              response = parse_claude_stream E stdout
          in
            (case update_session E W a2 response of
               (a3, Some error) \<Rightarrow> (a3, Inl error)
             | (a3, None) \<Rightarrow>
                 if saves_session a3 then
                   (case save_session_error W attempt of
                      Some error \<Rightarrow> (a3, Inl error)
                    | None \<Rightarrow> (a3, Inr response))
                 else (a3, Inr response)))\<close>

function execute_loop :: "js_env \<Rightarrow> world \<Rightarrow> claude_api \<Rightarrow> nat \<Rightarrow> js_error option \<Rightarrow> claude_api \<times> (js_error + claude_response)" where
  \<comment> \<open>The retry loop of \<open>execute\<close> from a given attempt on, \<open>last_error\<close> as it stands.\<close>
  \<open>execute_loop E W a attempt last_error =
     (if int attempt \<le> max_retries (retry (api_config a)) then
        (case execute_attempt E W a attempt of
           (a', Inr response) \<Rightarrow> (a', Inr response)
         | (a', Inl error) \<Rightarrow>
             if should_retry a' error \<and> int attempt < max_retries (retry (api_config a'))
             then execute_loop E W a' (Suc attempt) (Some error)
             else (a', Inl error))
      else (a, Inl (case last_error of None \<Rightarrow> JsError (js ''Error'') | Some e \<Rightarrow> e)))\<close>
  by pat_completeness auto
termination
proof (relation \<open>measure (\<lambda>(E, W, a, attempt, last_error).
    nat (max_retries (retry (api_config a)) + 1 - int attempt))\<close>)
  show \<open>wf (measure (\<lambda>(E, W, a, attempt, last_error).
    nat (max_retries (retry (api_config a)) + 1 - int attempt)))\<close> by simp
next
  fix E :: js_env and W :: world and a a' :: claude_api and attempt :: nat
    and last_error :: \<open>js_error option\<close> and r :: \<open>js_error + claude_response\<close> and error :: js_error
  assume le: \<open>int attempt \<le> max_retries (retry (api_config a))\<close>
    and x: \<open>(a', r) = execute_attempt E W a attempt\<close> \<open>r = Inl error\<close>
    and retry: \<open>should_retry a' error \<and> int attempt < max_retries (retry (api_config a'))\<close>
  have c1: \<open>api_config (check_rate_limit W b) = api_config b\<close> for b
    by (simp add: check_rate_limit_def split: option.splits prod.splits)
  have c2: \<open>api_config (record_if_limited W b) = api_config b\<close> for b
    by (simp add: record_if_limited_def split: option.splits)
  have c3: \<open>api_config (fst (update_session E W b resp)) = api_config b\<close> for b resp
    by (simp add: update_session_def Let_def split: option.splits prod.splits)
  have \<open>api_config (fst (execute_attempt E W a attempt)) = api_config a\<close>
    by (simp add: execute_attempt_def Let_def c1 c2 split: sum.splits prod.splits option.splits)
       (metis c1 c2 c3 fst_conv)
  moreover from x have \<open>a' = fst (execute_attempt E W a attempt)\<close>
    by (cases \<open>execute_attempt E W a attempt\<close>) simp
  ultimately have \<open>api_config a' = api_config a\<close> by simp
  with le retry show \<open>((E, W, a', Suc attempt, Some error), (E, W, a, attempt, last_error))
      \<in> measure (\<lambda>(E, W, a, attempt, last_error).
          nat (max_retries (retry (api_config a)) + 1 - int attempt))\<close>
    by simp
qed

definition execute :: "js_env \<Rightarrow> world \<Rightarrow> claude_api \<Rightarrow> claude_api \<times> (js_error + claude_response)" where
  \<open>execute E W a = execute_loop E W a 0 None\<close>


text \<open>
  For \<open>execute_stream\<close> the run of the child process is given from outside as well: the chunks it
  writes to standard output, and how it ends. The consumer is taken to read the generator to its
  end. Events are queued by the handlers in the order of the lines and consumed in that order, so
  the result is that of handling all the output first and consuming the queue afterwards.
\<close>

datatype process_end =
    Closed "int option" \<comment> \<open>the \<open>close\<close> event and its exit code, \<open>null\<close> after a signal\<close>
  | Failed js_error \<comment> \<open>the \<open>error\<close> event\<close>

record process_run =
  stdout_chunks :: "jsstring list"
  process_end :: process_end

definition queue_line :: "js_env \<Rightarrow> parser_state \<Rightarrow> jsstring \<Rightarrow> parser_state \<times> jsval list" where
  \<comment> \<open>What the handlers of \<open>_createEventAsyncIterator\<close> do with a trimmed line: the inner parser
      afterwards and the events pushed on the queue. The raw mode is not consulted here.\<close>
  \<open>queue_line E p cleanLine =
     (if cleanLine \<noteq> [] \<and> startsWith cleanLine (js ''{'') then
        let (p', event) = parse_line E p cleanLine
        in (p', if truthy event then [event] else [])
      else (p, []))\<close>

function data_loop :: "js_env \<Rightarrow> parser_state \<Rightarrow> jsstring \<Rightarrow> parser_state \<times> jsstring \<times> jsval list" where
  \<comment> \<open>The \<open>while\<close> loop of the \<open>data\<close> handler: the inner parser, the buffer and the events queued.\<close>
  \<open>data_loop E p buf =
     (if js_includes buf newline then
        let newlineIndex = indexOf buf newline;
            line = substring buf 0 newlineIndex;
            rest = substring_from buf (newlineIndex + 1);
            cleanLine = trim line;
            (p', queued) = queue_line E p cleanLine;
            (p'', buf', more) = data_loop E p' rest
        in (p'', buf', queued @ more)
      else (p, buf, []))\<close>
  by pat_completeness auto
termination
proof (relation \<open>measure (\<lambda>(E, p, buf). length buf)\<close>)
  show \<open>wf (measure (\<lambda>(E, p, buf). length buf))\<close> by simp
next
  fix E :: js_env and p p' :: parser_state and buf rest :: jsstring and newlineIndex :: int
  assume \<open>js_includes buf newline\<close>
    and \<open>rest = substring_from buf (newlineIndex + 1)\<close>
    and \<open>newlineIndex = indexOf buf newline\<close>
  then show \<open>((E, p', rest), (E, p, buf)) \<in> measure (\<lambda>(E, p, buf). length buf)\<close>
    by (cases buf) (auto simp: js_includes_def substring_from_def indexOf_def)
qed

fun feed_data :: "js_env \<Rightarrow> parser_state \<Rightarrow> jsstring \<Rightarrow> jsstring list \<Rightarrow> parser_state \<times> jsstring \<times> jsval list" where
  \<comment> \<open>The \<open>data\<close> handler on each chunk in turn.\<close>
  \<open>feed_data E p buf [] = (p, buf, [])\<close>
| \<open>feed_data E p buf (data # rest) =
     (let (p', buf', queued) = data_loop E p (buf @ data);
          (p'', buf'', more) = feed_data E p' buf' rest
      in (p'', buf'', queued @ more))\<close>

definition event_iterator :: "js_env \<Rightarrow> parser_state \<Rightarrow> process_run \<Rightarrow> parser_state \<times> jsval list \<times> js_error option" where
  \<comment> \<open>\<open>_createEventAsyncIterator\<close>: the inner parser at the end, the events it yields, and the
      error it throws after them, if any.\<close>
  \<open>event_iterator E p proc =
     (let (p1, buf, queued) = feed_data E p [] (stdout_chunks proc) in
      case process_end proc of
        Failed error \<Rightarrow> (p1, queued, Some error)
      | Closed code \<Rightarrow>
          if code \<noteq> Some 0 then (p1, queued, Some (JsError (js ''Error'')))
          else
            let (p2, remaining) = queue_line E p1 (trim buf)
            in (p2, queued @ remaining, None))\<close>

fun stream_events :: "js_env \<Rightarrow> world \<Rightarrow> claude_api \<Rightarrow> jsval list \<Rightarrow> claude_api \<times> jsval list \<times> js_error option" where
  \<comment> \<open>The \<open>for await\<close> loop of \<open>execute_stream\<close>: the controller afterwards, the events yielded, and
      the exception if \<open>add_response\<close> threw. An event of the queue is truthy, so reading its
      \<open>type\<close> cannot throw.\<close>
  \<open>stream_events E W a [] = (a, [], None)\<close>
| \<open>stream_events E W a (event # rest) =
     (case session a of
        None \<Rightarrow> (let (a', ys, err) = stream_events E W a rest in (a', event # ys, err))
      | Some s \<Rightarrow>
          if truthy (js_get event (js ''type'')) \<and>
             (js_get event (js ''type'') = JStr (js ''assistant'') \<or>
              js_get event (js ''type'') = JStr (js ''user''))
          then
            (case add_response E (clock W (clock_reads a)) s event of
               (s', Some e) \<Rightarrow> (a\<lparr>session := Some s', clock_reads := Suc (clock_reads a)\<rparr>, [], Some e)
             | (s', None) \<Rightarrow>
                 (let (a', ys, err) =
                        stream_events E W (a\<lparr>session := Some s', clock_reads := Suc (clock_reads a)\<rparr>) rest
                  in (a', event # ys, err)))
          else (let (a', ys, err) = stream_events E W a rest in (a', event # ys, err)))\<close>

definition execute_stream :: "js_env \<Rightarrow> world \<Rightarrow> claude_api \<Rightarrow> process_run \<Rightarrow> claude_api \<times> jsval list \<times> js_error option" where
  \<comment> \<open>The controller afterwards, the events yielded, and the exception the generator ends with,
      if any.\<close>
  \<open>execute_stream E W a proc =
     (let a1 = check_rate_limit W a;
          a2 = record_if_limited W a1;
          (p, queued, processError) = event_iterator E new_parser proc;
          (a3, yielded, err) = stream_events E W a2 queued
      in
        case err of
          Some e \<Rightarrow> (a3, yielded, Some e)
        | None \<Rightarrow>
            (case processError of
               Some e \<Rightarrow> (a3, yielded, Some e)
             | None \<Rightarrow>
                 (case session a3 of
                    None \<Rightarrow> (a3, yielded, None)
                  | Some s \<Rightarrow>
                      let s' = (if truthy (result_summary p)
                                then s\<lparr>total_cost := js_plus E (total_cost s)
                                       (js_get (result_summary p) (js ''total_cost_usd''))\<rparr>
                                else s);
                          a4 = a3\<lparr>session := Some s'\<rparr>
                      in
                        if saves_session a4 then (a4, yielded, save_session_error W 0)
                        else (a4, yielded, None))))\<close>



section \<open>The specification's terms\<close>

text \<open>
  The wire format of a user line, and the flattening of a tool result as the specification words
  it: a string verbatim; of a sequence of typed blocks, the texts of the textual blocks, in order,
  with nothing between them.
\<close>

definition nullish :: "jsval \<Rightarrow> bool" where
  \<open>nullish v = (v = JUndefined \<or> v = JNull)\<close>

fun is_JStr :: "jsval \<Rightarrow> bool" where
  \<open>is_JStr (JStr s) = True\<close>
| \<open>is_JStr v = False\<close>

fun str_of :: "jsval \<Rightarrow> jsstring" where
  \<open>str_of (JStr s) = s\<close>
| \<open>str_of v = []\<close>

definition is_text_block :: "jsval \<Rightarrow> bool" where
  \<open>is_text_block b = (js_get b (js ''type'') = JStr (js ''text''))\<close>

fun spec_flatten :: "jsval \<Rightarrow> jsstring" where
  \<open>spec_flatten (JStr s) = s\<close>
| \<open>spec_flatten (JArr blocks) =
     concat (map (\<lambda>b. str_of (js_get b (js ''text''))) (filter is_text_block blocks))\<close>
| \<open>spec_flatten v = []\<close>

fun wire_content :: "jsval \<Rightarrow> bool" where
  \<open>wire_content (JStr s) = True\<close>
| \<open>wire_content (JArr blocks) =
     list_all (\<lambda>b. \<not> nullish b \<and> (is_text_block b \<longrightarrow> is_JStr (js_get b (js ''text'')))) blocks\<close>
| \<open>wire_content v = False\<close>

definition is_tool_result :: "jsval \<Rightarrow> bool" where
  \<open>is_tool_result b = (js_get b (js ''type'') = JStr (js ''tool_result''))\<close>

definition wire_user_block :: "jsval \<Rightarrow> bool" where
  \<open>wire_user_block b =
     (\<not> nullish b \<and> (is_tool_result b \<longrightarrow> wire_content (js_get b (js ''content''))))\<close>


section \<open>Example lines\<close>

text \<open>
  Lines of a stream with the objects \<open>JSON.parse\<close> decodes them to. The example environment
  decodes these lines, and throws a SyntaxError on any other text; it stands for the built-ins on
  the examples only. Its number printing is right on the natural numbers.
\<close>

definition example_init_line :: jsstring where
  \<open>example_init_line = js ''{"type":"system","subtype":"init","session_id":"s1"}''\<close>

definition example_init :: jsval where
  \<open>example_init = JObj [(js ''type'', JStr (js ''system'')), (js ''subtype'', JStr (js ''init'')),
     (js ''session_id'', JStr (js ''s1''))]\<close>

definition example_user_line :: jsstring where
  \<open>example_user_line = js (''{"type":"user","message":{"content":['' @
     ''{"type":"tool_result","tool_use_id":"t1","content":'' @
       ''[{"type":"text","text":"a"},{"type":"text","text":"b"},{"type":"other"}]},'' @
     ''{"type":"tool_result","tool_use_id":"t2","content":"plain"}]},"session_id":"s1"}'')\<close>

definition example_user_blocks :: "jsval list" where
  \<open>example_user_blocks =
     [JObj [(js ''type'', JStr (js ''tool_result'')), (js ''tool_use_id'', JStr (js ''t1'')),
            (js ''content'', JArr [JObj [(js ''type'', JStr (js ''text'')), (js ''text'', JStr (js ''a''))],
                                   JObj [(js ''type'', JStr (js ''text'')), (js ''text'', JStr (js ''b''))],
                                   JObj [(js ''type'', JStr (js ''other''))]])],
      JObj [(js ''type'', JStr (js ''tool_result'')), (js ''tool_use_id'', JStr (js ''t2'')),
            (js ''content'', JStr (js ''plain''))]]\<close>

definition example_user :: jsval where
  \<open>example_user = JObj [(js ''type'', JStr (js ''user'')),
     (js ''message'', JObj [(js ''content'', JArr example_user_blocks)]),
     (js ''session_id'', JStr (js ''s1''))]\<close>

definition example_result_line :: jsstring where
  \<open>example_result_line =
     js ''{"type":"result","subtype":"success","is_error":false,"total_cost_usd":0.01,"session_id":"s1"}''\<close>

definition example_result :: jsval where
  \<open>example_result = JObj [(js ''type'', JStr (js ''result'')), (js ''subtype'', JStr (js ''success'')),
     (js ''is_error'', JBool False), (js ''total_cost_usd'', JNum (1 / 100)),
     (js ''session_id'', JStr (js ''s1''))]\<close>

definition bare_result_line :: jsstring where
  \<open>bare_result_line = js ''{"type":"result","subtype":"success"}''\<close>

definition bare_result :: jsval where
  \<open>bare_result = JObj [(js ''type'', JStr (js ''result'')), (js ''subtype'', JStr (js ''success''))]\<close>

definition zero_cost_result :: jsval where
  \<open>zero_cost_result = JObj [(js ''type'', JStr (js ''result'')), (js ''subtype'', JStr (js ''success'')),
     (js ''is_error'', JBool False), (js ''total_cost_usd'', JNum 0)]\<close>

definition example_stream :: jsstring where
  \<open>example_stream = example_init_line @ [newline] @ example_result_line @ [newline]\<close>

definition example_json :: "(jsstring \<times> jsval) list" where
  \<open>example_json = [(example_init_line, example_init), (example_user_line, example_user),
     (example_result_line, example_result), (bare_result_line, bare_result)]\<close>

definition example_env :: js_env where
  \<open>example_env =
     \<lparr>JSON_parse = (\<lambda>s. case map_of example_json s of None \<Rightarrow> Inl SyntaxError | Some v \<Rightarrow> Inr v),
      Number_toString = (\<lambda>x. decimal (nat \<lfloor>x\<rfloor>)),
      js_plus = (\<lambda>a b. case (a, b) of (JNum x, JNum y) \<Rightarrow> JNum (x + y) | _ \<Rightarrow> JUndefined)\<rparr>\<close>


text \<open>
  A limiter with ceilings of two requests a minute and two an hour, two requests recorded in its
  first seconds; and a controller with the default configuration, created at time 0.
\<close>

definition two_per_minute :: rate_limit_config where
  \<open>two_per_minute = \<lparr>requests_per_minute = 2, requests_per_hour = 2, burst_size = 10, enabled = True\<rparr>\<close>

definition two_recorded :: rate_limit_state where
  \<open>two_recorded = record_request 2000 (record_request 1000 (new_rate_limit_state 0 0))\<close>

definition default_api :: claude_api where
  \<open>default_api = \<lparr>api_config = \<lparr>retry = DEFAULT_RETRY_CONFIG, rate_limit = DEFAULT_RATE_LIMIT_CONFIG,
       streaming = DEFAULT_STREAM_CONFIG,
       session_options = \<lparr>maintain_context = True, max_history_size = 100, persist_to_file = None,
         auto_save = True\<rparr>\<rparr>,
     session = Some (new_session 0 0), rate_limiter = Some (new_rate_limit_state 0 0),
     clock_reads = 4\<rparr>\<close>


text \<open>
  Two worlds whose clock shows 1000 ms more at each reading: in one every command writes the
  example stream and exits with code 0, in the other every command fails with an \<open>Error\<close>. A run
  of a child process that writes the example stream in one chunk. A controller whose session
  holds the identifier \<open>old\<close> of an earlier run.
\<close>

definition example_world :: world where
  \<open>example_world = \<lparr>clock = (\<lambda>n. 1000 * int n), run_command = (\<lambda>n. Inr example_stream),
     save_session_error = (\<lambda>n. None)\<rparr>\<close>

definition failing_world :: world where
  \<open>failing_world = \<lparr>clock = (\<lambda>n. 1000 * int n), run_command = (\<lambda>n. Inl (JsError (js ''Error''))),
     save_session_error = (\<lambda>n. None)\<rparr>\<close>

definition example_run :: process_run where
  \<open>example_run = \<lparr>stdout_chunks = [example_stream], process_end = Closed (Some 0)\<rparr>\<close>

definition resumed_api :: claude_api where
  \<open>resumed_api = default_api\<lparr>session := Some ((new_session 0 0)\<lparr>session_id := JStr (js ''old'')\<rparr>)\<rparr>\<close>

definition example_response :: claude_response where
  \<open>example_response = \<lparr>system_init = example_init, assistant_responses = [], user_responses = [],
     result_summary = example_result, raw_response = example_stream\<rparr>\<close>


section \<open>Auxiliary notions for the proofs\<close>

definition blank :: "jsstring \<Rightarrow> bool" where
  \<open>blank w = list_all is_ws w\<close>


definition run_lines :: "js_env \<Rightarrow> parser_state \<Rightarrow> jsstring list \<Rightarrow> parser_state \<times> jsval list" where
  \<open>run_lines E p ls = (fst (parse_lines E p ls), filter (\<lambda>r. r \<noteq> JNull) (snd (parse_lines E p ls)))\<close>


fun emit_lines :: "js_env \<Rightarrow> stream_config \<Rightarrow> parser_state \<Rightarrow> jsstring list \<Rightarrow> parser_state \<times> jsval list" where
  \<open>emit_lines E cfg p [] = (p, [])\<close>
| \<open>emit_lines E cfg p (l # ls) =
     (fst (emit_lines E cfg (fst (emit_line E cfg p (trim l))) ls),
      snd (emit_line E cfg p (trim l)) @ snd (emit_lines E cfg (fst (emit_line E cfg p (trim l))) ls))\<close>



section \<open>Strings and lines\<close>

lemma dropWhile_all: "\<forall>c\<in>set l. P c \<Longrightarrow> dropWhile P l = []"
  by (induction l) auto

lemma trim_blank: "\<forall>c\<in>set l. is_ws c \<Longrightarrow> trim l = []"
  by (simp add: trim_def dropWhile_all)

lemma parse_line_prefilter:
  "trim l = [] \<or> \<not> startsWith (trim l) (js ''{'') \<or> \<not> endsWith (trim l) (js ''}'')
   \<Longrightarrow> parse_line E p l = (p, JNull)"
  by (auto simp: parse_line_def Let_def)

lemma trim_not_json: "trim (js ''not json'') = js ''not json''"
  by (simp add: trim_def js_def is_ws_def)

lemma trim_truncated: \<open>trim (js ''{"type":"assistant"'') = js ''{"type":"assistant"''\<close>
  by (simp add: trim_def js_def is_ws_def)

lemma trim_blank_prefix: "blank w \<Longrightarrow> trim (w @ l) = trim l"
  by (simp add: trim_def blank_def list_all_iff)

lemma dropWhile_nil_iff: "dropWhile P l = [] \<longleftrightarrow> list_all P l"
  by (induction l) auto

lemma trim_blank_suffix: "blank w \<Longrightarrow> trim (l @ w) = trim l"
proof (cases "list_all is_ws l")
  case True
  assume "blank w"
  with True have "dropWhile is_ws (l @ w) = []" "dropWhile is_ws l = []"
    by (auto simp: blank_def dropWhile_nil_iff list_all_iff)
  then show ?thesis by (simp only: trim_def)
next
  case False
  assume w: "blank w"
  from False have "dropWhile is_ws (l @ w) = dropWhile is_ws l @ w"
    by (auto simp: list_all_iff)
  moreover have "dropWhile is_ws (rev w @ rev (dropWhile is_ws l)) = dropWhile is_ws (rev (dropWhile is_ws l))"
    using w by (intro dropWhile_append2) (simp add: blank_def list_all_iff)
  ultimately show ?thesis by (simp add: trim_def)
qed

lemma trim_decompose: "\<exists>a b. s = a @ trim s @ b \<and> blank a \<and> blank b"
proof -
  define a where "a = takeWhile is_ws s"
  define d where "d = dropWhile is_ws s"
  define b where "b = rev (takeWhile is_ws (rev d))"
  have "s = a @ d" by (simp add: a_def d_def)
  moreover have "rev (rev d) = rev (takeWhile is_ws (rev d) @ dropWhile is_ws (rev d))"
    by (simp only: takeWhile_dropWhile_id)
  then have "d = rev (dropWhile is_ws (rev d)) @ rev (takeWhile is_ws (rev d))"
    by (simp only: rev_append rev_rev_ident)
  then have "d = trim s @ b" by (simp only: trim_def b_def d_def)
  moreover have "blank a" by (simp add: a_def blank_def list_all_iff) (meson set_takeWhileD)
  moreover have "blank b" by (simp add: b_def blank_def list_all_iff) (meson set_takeWhileD)
  ultimately show ?thesis by blast
qed

lemma trim_trim: "trim (trim s) = trim s"
proof -
  obtain a b where "s = a @ trim s @ b" "blank a" "blank b" using trim_decompose by blast
  then have "trim s = trim (a @ (trim s @ b))" by simp
  also have "\<dots> = trim (trim s @ b)" using \<open>blank a\<close> by (rule trim_blank_prefix)
  also have "\<dots> = trim (trim s)" using \<open>blank b\<close> by (rule trim_blank_suffix)
  finally show ?thesis by simp
qed

lemma parse_line_trim: "parse_line E p (trim l) = parse_line E p l"
  by (simp add: parse_line_def trim_trim)

lemma parse_line_blank_prefix: "blank w \<Longrightarrow> parse_line E p (w @ l) = parse_line E p l"
  by (simp add: parse_line_def trim_blank_prefix)

lemma parse_line_blank_suffix: "blank w \<Longrightarrow> parse_line E p (l @ w) = parse_line E p l"
  by (simp add: parse_line_def trim_blank_suffix)

lemma parse_line_blank: "blank w \<Longrightarrow> parse_line E p w = (p, JNull)"
  using parse_line_blank_prefix [of w E p "[]"] by (simp add: parse_line_def trim_def)

lemma classify_result: "classify E p data = Inr (p', r) \<Longrightarrow> r = JNull \<or> truthy r"
  by (cases data)
     (auto simp: classify_def and_then_def get_prop_def parse_assistant_def parse_user_def Let_def
           split: sum.splits if_splits)

lemma parse_line_result: "snd (parse_line E p l) = JNull \<or> truthy (snd (parse_line E p l))"
  by (auto simp: parse_line_def Let_def split: sum.splits dest: classify_result)

lemma emit_line_parse_line:
  assumes "\<not> yield_raw cfg"
  shows "emit_line E cfg p (trim l) =
    (fst (parse_line E p l), if snd (parse_line E p l) \<noteq> JNull then [snd (parse_line E p l)] else [])"
proof (cases "trim l \<noteq> [] \<and> startsWith (trim l) (js ''{'')")
  case True
  then show ?thesis
    using assms parse_line_result [of E p l]
    by (auto simp: emit_line_def parse_line_trim split: prod.splits)
next
  case False
  then have "parse_line E p l = (p, JNull)" by (auto simp: parse_line_def Let_def)
  with False show ?thesis by (auto simp: emit_line_def)
qed

declare parse_chunk_loop.simps [simp del]

lemma run_lines_Nil [simp]: "run_lines E p [] = (p, [])"
  by (simp add: run_lines_def)

lemma run_lines_Cons:
  "run_lines E p (l # ls) =
     (fst (run_lines E (fst (parse_line E p l)) ls),
      (if snd (parse_line E p l) \<noteq> JNull then [snd (parse_line E p l)] else []) @
      snd (run_lines E (fst (parse_line E p l)) ls))"
  by (simp add: run_lines_def split: prod.splits)

lemma run_lines_append:
  "run_lines E p (ks @ ls) =
     (fst (run_lines E (fst (run_lines E p ks)) ls),
      snd (run_lines E p ks) @ snd (run_lines E (fst (run_lines E p ks)) ls))"
  by (induction ks arbitrary: p) (simp_all add: run_lines_Cons)

lemma split_nl_not_Nil [simp]: "split_nl s \<noteq> []"
  by (induction s) (auto split: list.splits)

lemma split_nl_no_newline: "newline \<notin> set l \<Longrightarrow> split_nl l = [l]"
  by (induction l) auto

lemma split_nl_first_line:
  "newline \<notin> set line \<Longrightarrow> split_nl (line @ newline # rest) = line # split_nl rest"
  by (induction line) (auto split: list.splits)

lemma buffer_first_line:
  assumes "newline \<in> set b"
  shows "b = takeWhile (\<lambda>d. d \<noteq> newline) b @ newline # drop (Suc (length (takeWhile (\<lambda>d. d \<noteq> newline) b))) b"
    and "newline \<notin> set (takeWhile (\<lambda>d. d \<noteq> newline) b)"
proof -
  have "b = takeWhile (\<lambda>d. d \<noteq> newline) b @ dropWhile (\<lambda>d. d \<noteq> newline) b" by simp
  moreover from assms have "dropWhile (\<lambda>d. d \<noteq> newline) b \<noteq> []" by (simp add: dropWhile_eq_Nil_conv)
  moreover have "hd (dropWhile (\<lambda>d. d \<noteq> newline) b) = newline"
    using assms hd_dropWhile [of "\<lambda>d. d \<noteq> newline" b] by (simp add: dropWhile_eq_Nil_conv)
  ultimately have "dropWhile (\<lambda>d. d \<noteq> newline) b = newline # tl (dropWhile (\<lambda>d. d \<noteq> newline) b)"
    by (metis list.collapse)
  moreover have "tl (dropWhile (\<lambda>d. d \<noteq> newline) b) = drop (Suc (length (takeWhile (\<lambda>d. d \<noteq> newline) b))) b"
    by (simp add: dropWhile_eq_drop drop_Suc tl_drop)
  ultimately show "b = takeWhile (\<lambda>d. d \<noteq> newline) b @ newline # drop (Suc (length (takeWhile (\<lambda>d. d \<noteq> newline) b))) b"
    by (metis takeWhile_dropWhile_id)
  show "newline \<notin> set (takeWhile (\<lambda>d. d \<noteq> newline) b)"
    by (auto dest: set_takeWhileD)
qed

lemma loop_no_newline: "newline \<notin> set (buffer sp) \<Longrightarrow> parse_chunk_loop E sp = (sp, [])"
  by (subst parse_chunk_loop.simps) (simp add: js_includes_def)

lemma loop_newline:
  assumes "buffer sp = line @ newline # rest" "newline \<notin> set line"
  shows "parse_chunk_loop E sp =
    (fst (parse_chunk_loop E (sp\<lparr>buffer := rest, parser := fst (emit_line E (config sp) (parser sp) (trim line))\<rparr>)),
     snd (emit_line E (config sp) (parser sp) (trim line)) @
     snd (parse_chunk_loop E (sp\<lparr>buffer := rest, parser := fst (emit_line E (config sp) (parser sp) (trim line))\<rparr>)))"
proof -
  have tw: "takeWhile (\<lambda>d. d \<noteq> newline) (line @ newline # rest) = line"
    using assms(2) by (induction line) auto
  have inc: "js_includes (buffer sp) newline" using assms(1) by (simp add: js_includes_def)
  have idx: "indexOf (buffer sp) newline = int (length line)"
    using assms(1) tw by (simp add: indexOf_def)
  have l: "substring (buffer sp) 0 (int (length line)) = line"
    using assms(1) by (simp add: substring_def)
  have r: "substring_from (buffer sp) (int (length line) + 1) = rest"
    using assms(1) by (simp add: substring_from_def nat_add_distrib)
  show ?thesis
    by (subst parse_chunk_loop.simps) (simp add: inc idx l r Let_def split: prod.splits)
qed
lemma emit_lines_append:
  "emit_lines E cfg p (ks @ ls) =
     (fst (emit_lines E cfg (fst (emit_lines E cfg p ks)) ls),
      snd (emit_lines E cfg p ks) @ snd (emit_lines E cfg (fst (emit_lines E cfg p ks)) ls))"
  by (induction ks arbitrary: p) simp_all

lemma emit_lines_run_lines: "\<not> yield_raw cfg \<Longrightarrow> emit_lines E cfg p ls = run_lines E p ls"
  by (induction ls arbitrary: p) (simp_all add: run_lines_Cons emit_line_parse_line)

lemma split_nl_append:
  "split_nl (x @ y) = butlast (split_nl x) @ split_nl (last (split_nl x) @ y)"
proof (induction x)
  case Nil
  then show ?case by simp
next
  case (Cons c x)
  obtain l ls where s: "split_nl x = l # ls" by (cases "split_nl x") auto
  show ?case
  proof (cases "c = newline")
    case True
    then show ?thesis using Cons by simp
  next
    case False
    show ?thesis
    proof (cases ls)
      case Nil
      with s Cons False show ?thesis by simp
    next
      case (Cons k ks)
      with s Cons.IH False show ?thesis by simp
    qed
  qed
qed

lemma split_nl_lines: "l \<in> set (split_nl s) \<Longrightarrow> newline \<notin> set l"
proof (induction s arbitrary: l)
  case Nil
  then show ?case by simp
next
  case (Cons c s)
  then show ?case by (cases "split_nl s") (auto split: if_splits)
qed

lemma last_split_nl: "newline \<notin> set (last (split_nl s))"
  by (rule split_nl_lines [of _ s]) simp

lemma loop_lines:
  "parse_chunk_loop E \<lparr>config = cfg, buffer = b, parser = p\<rparr> =
     (\<lparr>config = cfg, buffer = last (split_nl b),
       parser = fst (emit_lines E cfg p (butlast (split_nl b)))\<rparr>,
      snd (emit_lines E cfg p (butlast (split_nl b))))"
proof (induction b arbitrary: p rule: length_induct)
  case (1 b)
  show ?case
  proof (cases "newline \<in> set b")
    case False
    then show ?thesis by (simp add: loop_no_newline split_nl_no_newline)
  next
    case True
    define line where "line = takeWhile (\<lambda>d. d \<noteq> newline) b"
    define rest where "rest = drop (Suc (length line)) b"
    from buffer_first_line [OF True] have b: "b = line @ newline # rest" and nl: "newline \<notin> set line"
      by (simp_all add: line_def rest_def)
    have short: "length rest < length b" using arg_cong [OF b, of length] by simp
    have sb: "split_nl b = line # split_nl rest"
      using split_nl_first_line [OF nl, of rest] b by simp
    have "buffer \<lparr>config = cfg, buffer = b, parser = p\<rparr> = line @ newline # rest"
      using b by simp
    from loop_newline [OF this nl, of E] "1.IH" [rule_format, OF short]
    show ?thesis by (simp add: sb)
  qed
qed
lemma butlast_split_nl_append:
  "butlast (split_nl (x @ y)) = butlast (split_nl x) @ butlast (split_nl (last (split_nl x) @ y))"
  by (subst split_nl_append) (simp add: butlast_append)

lemma last_split_nl_append:
  "last (split_nl (x @ y)) = last (split_nl (last (split_nl x) @ y))"
  by (subst split_nl_append) simp

lemma feed_chunks_lines:
  "newline \<notin> set b \<Longrightarrow>
   feed_chunks E \<lparr>config = cfg, buffer = b, parser = p\<rparr> chunks =
     (\<lparr>config = cfg, buffer = last (split_nl (b @ concat chunks)),
       parser = fst (emit_lines E cfg p (butlast (split_nl (b @ concat chunks))))\<rparr>,
      snd (emit_lines E cfg p (butlast (split_nl (b @ concat chunks)))))"
proof (induction chunks arbitrary: b p)
  case Nil
  then show ?case by (simp add: split_nl_no_newline)
next
  case (Cons c chunks)
  define b' where "b' = last (split_nl (b @ c))"
  define p' where "p' = fst (emit_lines E cfg p (butlast (split_nl (b @ c))))"
  have nl: "newline \<notin> set b'" unfolding b'_def by (rule last_split_nl)
  have step: "parse_chunk E \<lparr>config = cfg, buffer = b, parser = p\<rparr> c =
      (\<lparr>config = cfg, buffer = b', parser = p'\<rparr>,
       snd (emit_lines E cfg p (butlast (split_nl (b @ c)))))"
    by (simp add: parse_chunk_def loop_lines b'_def p'_def)
  have bl: "butlast (split_nl (b @ c @ concat chunks)) =
      butlast (split_nl (b @ c)) @ butlast (split_nl (b' @ concat chunks))"
    using butlast_split_nl_append [of "b @ c" "concat chunks"] by (simp add: b'_def)
  have la: "last (split_nl (b @ c @ concat chunks)) = last (split_nl (b' @ concat chunks))"
    using last_split_nl_append [of "b @ c" "concat chunks"] by (simp add: b'_def)
  show ?case
    by (simp add: step Cons.IH [OF nl] bl la emit_lines_append p'_def)
qed

lemma feed_and_flush_lines:
  "feed_and_flush E \<lparr>config = cfg, buffer = [], parser = p\<rparr> chunks =
     (\<lparr>config = cfg, buffer = [], parser = fst (emit_lines E cfg p (split_nl (concat chunks)))\<rparr>,
      snd (emit_lines E cfg p (split_nl (concat chunks))))"
proof -
  define ls where "ls = split_nl (concat chunks)"
  have ls: "ls = butlast ls @ [last ls]" by (simp add: ls_def)
  have "emit_lines E cfg p ls = emit_lines E cfg p (butlast ls @ [last ls])"
    using ls by simp
  then have e: "emit_lines E cfg p ls =
     (fst (emit_line E cfg (fst (emit_lines E cfg p (butlast ls))) (trim (last ls))),
      snd (emit_lines E cfg p (butlast ls)) @
      snd (emit_line E cfg (fst (emit_lines E cfg p (butlast ls))) (trim (last ls))))"
    by (simp add: emit_lines_append)
  show ?thesis
    unfolding ls_def [symmetric]
    by (simp add: feed_and_flush_def feed_chunks_lines flush_def ls_def [symmetric] e Let_def
        split: prod.splits)
qed

lemma blank_split_nl: "blank w \<Longrightarrow> list_all blank (split_nl w)"
proof (induction w)
  case Nil
  then show ?case by (simp add: blank_def)
next
  case (Cons c w)
  then show ?case by (cases "split_nl w") (auto simp: blank_def)
qed

lemma run_lines_blank: "list_all blank ls \<Longrightarrow> run_lines E p ls = (p, [])"
  by (induction ls) (simp_all add: run_lines_Cons parse_line_blank)

lemma split_nl_prefix_line:
  "newline \<notin> set w \<Longrightarrow> split_nl (w @ x) = (w @ hd (split_nl x)) # tl (split_nl x)"
  by (induction w) (auto split: list.splits)

lemma run_lines_blank_prefix:
  assumes "blank a"
  shows "run_lines E p (split_nl (a @ x)) = run_lines E p (split_nl x)"
proof -
  define w where "w = last (split_nl a)"
  obtain h t where x: "split_nl x = h # t" by (cases "split_nl x") auto
  have bl: "list_all blank (split_nl a)" using assms by (rule blank_split_nl)
  then have b1: "list_all blank (butlast (split_nl a))"
    by (auto simp: list_all_iff dest: in_set_butlastD)
  have bw: "blank w" using bl unfolding w_def by (simp add: list_all_iff)
  have nw: "newline \<notin> set w" unfolding w_def by (rule last_split_nl)
  have "split_nl (a @ x) = butlast (split_nl a) @ (w @ h) # t"
    by (simp add: split_nl_append [of a x] w_def [symmetric] split_nl_prefix_line [OF nw] x)
  then have "run_lines E p (split_nl (a @ x)) = run_lines E p ((w @ h) # t)"
    by (simp add: run_lines_append run_lines_blank [OF b1])
  also have "\<dots> = run_lines E p (h # t)"
    by (simp add: run_lines_Cons parse_line_blank_prefix [OF bw])
  finally show ?thesis by (simp add: x)
qed

lemma run_lines_blank_suffix:
  assumes "blank b"
  shows "run_lines E p (split_nl (x @ b)) = run_lines E p (split_nl x)"
proof -
  define w where "w = last (split_nl x)"
  define h where "h = hd (split_nl b)"
  have bl: "list_all blank (split_nl b)" using assms by (rule blank_split_nl)
  then have bt: "list_all blank (tl (split_nl b))"
    by (auto simp: list_all_iff dest: list.set_sel(2) [rotated])
  have bh: "blank h" using bl unfolding h_def by (cases "split_nl b") simp_all
  have nw: "newline \<notin> set w" unfolding w_def by (rule last_split_nl)
  have x: "split_nl x = butlast (split_nl x) @ [w]" by (simp add: w_def)
  have "split_nl (x @ b) = butlast (split_nl x) @ (w @ h) # tl (split_nl b)"
    by (simp add: split_nl_append [of x b] w_def [symmetric] split_nl_prefix_line [OF nw] h_def)
  then have "run_lines E p (split_nl (x @ b)) =
      run_lines E p (butlast (split_nl x) @ (w @ h) # tl (split_nl b))" by simp
  also have "\<dots> = run_lines E p (butlast (split_nl x) @ [w])"
    by (simp add: run_lines_append run_lines_Cons parse_line_blank_suffix [OF bh]
        run_lines_blank [OF bt])
  finally show ?thesis using x by simp
qed

lemma run_lines_trim: "run_lines E p (split_nl (trim s)) = run_lines E p (split_nl s)"
proof -
  obtain a b where s: "s = a @ trim s @ b" and a: "blank a" and b: "blank b"
    using trim_decompose by blast
  have "run_lines E p (split_nl s) = run_lines E p (split_nl (a @ (trim s @ b)))"
    using s by simp
  also have "\<dots> = run_lines E p (split_nl (trim s @ b))" by (rule run_lines_blank_prefix [OF a])
  also have "\<dots> = run_lines E p (split_nl (trim s))" by (rule run_lines_blank_suffix [OF b])
  finally show ?thesis by simp
qed

lemma trim_id: "s \<noteq> [] \<Longrightarrow> \<not> is_ws (hd s) \<Longrightarrow> \<not> is_ws (last s) \<Longrightarrow> trim s = s"
proof -
  assume a: "s \<noteq> []" "\<not> is_ws (hd s)" "\<not> is_ws (last s)"
  then have "dropWhile is_ws s = s" by (cases s) auto
  moreover have "dropWhile is_ws (rev s) = rev s"
    using a by (cases "rev s") (auto simp: hd_rev)
  ultimately show ?thesis by (simp add: trim_def)
qed

lemma is_ws_simps: "\<not> is_ws 0x7B" "\<not> is_ws 0x7D"
  by (simp_all add: is_ws_def)

lemma ex_user_trim: "trim example_user_line = example_user_line"
  by (rule trim_id) (simp_all add: example_user_line_def js_def is_ws_def)

lemma ex_user_parse: "JSON_parse example_env example_user_line = Inr example_user"
  by (simp add: example_env_def example_json_def)
     (simp add: example_user_line_def example_init_line_def js_def)


section \<open>Tool results\<close>

lemma js_or_JStr [simp]: "js_or (JStr s) (JStr []) = JStr s"
  by (simp add: js_or_def)

lemma text_parts_loop_wire:
  "list_all (\<lambda>b. \<not> nullish b \<and> (is_text_block b \<longrightarrow> is_JStr (js_get b (js ''text'')))) cs \<Longrightarrow>
   text_parts_loop acc cs =
     Inr (acc @ map (\<lambda>b. JStr (str_of (js_get b (js ''text'')))) (filter is_text_block cs))"
proof (induction cs arbitrary: acc)
  case Nil
  then show ?case by simp
next
  case (Cons c cs)
  then have c: "\<not> nullish c" "is_text_block c \<Longrightarrow> is_JStr (js_get c (js ''text''))"
    and cs: "list_all (\<lambda>b. \<not> nullish b \<and> (is_text_block b \<longrightarrow> is_JStr (js_get b (js ''text'')))) cs"
    by simp_all
  show ?case
  proof (cases "is_text_block c")
    case True
    then obtain t where t: "js_get c (js ''text'') = JStr t"
      using c(2) by (cases "js_get c (js ''text'')") auto
    from True have obj: "typeof_object c"
      by (cases c) (auto simp: is_text_block_def)
    show ?thesis
      using True c(1) t obj Cons.IH [OF cs]
      by (simp add: get_prop_def nullish_def is_text_block_def)
  next
    case False
    then show ?thesis
      using c(1) Cons.IH [OF cs]
      by (simp add: get_prop_def nullish_def is_text_block_def)
  qed
qed

lemma join_strings_empty: "join_strings [] ss = concat ss"
  by (induction "[] :: jsstring" ss rule: join_strings.induct) auto

lemma array_join_strs: "array_join N [] (map (\<lambda>b. JStr (f b)) bs) = concat (map f bs)"
  by (simp add: array_join_def join_strings_empty comp_def)

lemma content_text_wire:
  "wire_content c \<Longrightarrow> content_text E (js_or c (JStr [])) = Inr (spec_flatten c)"
proof (cases c)
  case (JArr cs)
  assume "wire_content c"
  with JArr show ?thesis
    by (simp add: content_text_def js_or_def and_then_def text_parts_loop_wire array_join_strs)
qed (auto simp: content_text_def)

lemma tool_result_wire:
  assumes "\<not> nullish b" "wire_content (js_get b (js ''content''))"
  shows "\<exists>r. tool_result E b = Inr r \<and>
           js_get r (js ''content'') = JStr (spec_flatten (js_get b (js ''content'')))"
  using assms
  by (simp add: tool_result_def and_then_def get_prop_def nullish_def content_text_wire)
     (simp add: js_def)

lemma user_content_list_wire:
  "list_all wire_user_block blocks \<Longrightarrow>
   \<exists>results. user_content_list E acc blocks = Inr (acc @ results) \<and>
     map (\<lambda>r. js_get r (js ''content'')) results =
     map (\<lambda>b. JStr (spec_flatten (js_get b (js ''content'')))) (filter is_tool_result blocks)"
proof (induction blocks arbitrary: acc)
  case Nil
  then show ?case by simp
next
  case (Cons b blocks)
  from Cons.prems have wb: "wire_user_block b" and rest: "list_all wire_user_block blocks"
    by simp_all
  from wb have b: "\<not> nullish b" "is_tool_result b \<Longrightarrow> wire_content (js_get b (js ''content''))"
    by (simp_all add: wire_user_block_def)
  show ?case
  proof (cases "is_tool_result b")
    case True
    from tool_result_wire [OF b(1) b(2) [OF True], of E]
    obtain r where r: "tool_result E b = Inr r"
      "js_get r (js ''content'') = JStr (spec_flatten (js_get b (js ''content'')))"
      by blast
    from Cons.IH [OF rest, of "acc @ [r]"]
    obtain results where res: "user_content_list E (acc @ [r]) blocks = Inr ((acc @ [r]) @ results)"
      "map (\<lambda>r. js_get r (js ''content'')) results =
       map (\<lambda>b. JStr (spec_flatten (js_get b (js ''content'')))) (filter is_tool_result blocks)"
      by blast
    have "user_content_list E acc (b # blocks) = Inr (acc @ (r # results))"
      using True b(1) r(1) res(1) by (simp add: get_prop_def nullish_def is_tool_result_def)
    moreover have "map (\<lambda>r. js_get r (js ''content'')) (r # results) =
       map (\<lambda>b. JStr (spec_flatten (js_get b (js ''content'')))) (filter is_tool_result (b # blocks))"
      using True r(2) res(2) by simp
    ultimately show ?thesis by blast
  next
    case False
    from Cons.IH [OF rest, of acc]
    obtain results where res: "user_content_list E acc blocks = Inr (acc @ results)"
      "map (\<lambda>r. js_get r (js ''content'')) results =
       map (\<lambda>b. JStr (spec_flatten (js_get b (js ''content'')))) (filter is_tool_result blocks)"
      by blast
    have "user_content_list E acc (b # blocks) = Inr (acc @ results)"
      using False b(1) res(1) by (simp add: get_prop_def nullish_def is_tool_result_def)
    then show ?thesis using False res(2) by auto
  qed
qed

lemma map_of_set_prop: "map_of (set_prop kvs k v) k = Some v"
  by (induction kvs) auto

lemma js_get_set_prop [simp]: "js_get (JObj (set_prop kvs k v)) k = v"
  by (simp add: map_of_set_prop)

lemma trim_quoted_not_json: \<open>trim (js ''"not json"'') = js ''"not json"''\<close>
  by (simp add: trim_def js_def is_ws_def)

section \<open>The example lines\<close>

lemma ex_init_trim: "trim example_init_line = example_init_line"
  by (rule trim_id) (simp_all add: example_init_line_def js_def is_ws_def)

lemma ex_result_trim: "trim example_result_line = example_result_line"
  by (rule trim_id) (simp_all add: example_result_line_def js_def is_ws_def)

lemma ex_init_no_newline: "newline \<notin> set example_init_line"
  by (simp add: example_init_line_def js_def newline_def)

lemma ex_result_no_newline: "newline \<notin> set example_result_line"
  by (simp add: example_result_line_def js_def newline_def)

lemma blank_newline: "blank [newline]"
  by (simp add: blank_def newline_def is_ws_def)

lemma example_stream_trim: "trim example_stream = example_init_line @ [newline] @ example_result_line"
proof -
  have "trim example_stream = trim (example_init_line @ [newline] @ example_result_line)"
    using trim_blank_suffix [OF blank_newline, of "example_init_line @ [newline] @ example_result_line"]
    by (simp add: example_stream_def)
  also have "\<dots> = example_init_line @ [newline] @ example_result_line"
    by (rule trim_id) (simp_all add: example_init_line_def example_result_line_def js_def is_ws_def)
  finally show ?thesis .
qed

lemma example_stream_split:
  \<open>split_nl (trim example_stream) = [example_init_line, example_result_line]\<close>
  using split_nl_first_line [OF ex_init_no_newline, of example_result_line]
  by (simp add: example_stream_trim split_nl_no_newline [OF ex_result_no_newline])

lemma ex_init_parse: "JSON_parse example_env example_init_line = Inr example_init"
  by (simp add: example_env_def example_json_def)

lemma ex_result_parse: "JSON_parse example_env example_result_line = Inr example_result"
  by (simp add: example_env_def example_json_def)
     (simp add: example_result_line_def example_init_line_def example_user_line_def js_def)

lemma parse_line_example_init:
  "parse_line example_env p example_init_line =
     (p\<lparr>raw_lines := raw_lines p @ [example_init_line], events := events p @ [example_init],
        system_init := example_init\<rparr>, example_init)"
proof -
  have "classify example_env q example_init = Inr (q\<lparr>system_init := example_init\<rparr>, example_init)" for q
    by (simp add: classify_def and_then_def get_prop_def example_init_def) (simp add: js_def)
  moreover have "startsWith example_init_line (js ''{'')" "endsWith example_init_line (js ''}'')"
    "example_init_line \<noteq> []"
    by (simp_all add: startsWith_def endsWith_def example_init_line_def js_def)
  ultimately show ?thesis
    by (simp add: parse_line_def ex_init_trim ex_init_parse Let_def)
qed

lemma parse_line_example_result:
  "parse_line example_env p example_result_line =
     (p\<lparr>raw_lines := raw_lines p @ [example_result_line], events := events p @ [example_result],
        result_summary := example_result\<rparr>, example_result)"
proof -
  have "classify example_env q example_result = Inr (q\<lparr>result_summary := example_result\<rparr>, example_result)" for q
    by (simp add: classify_def and_then_def get_prop_def example_result_def) (simp add: js_def)
  moreover have "startsWith example_result_line (js ''{'')" "endsWith example_result_line (js ''}'')"
    "example_result_line \<noteq> []"
    by (simp_all add: startsWith_def endsWith_def example_result_line_def js_def)
  ultimately show ?thesis
    by (simp add: parse_line_def ex_result_trim ex_result_parse Let_def)
qed

lemma example_init_not_null: "example_init \<noteq> JNull"
  by (simp add: example_init_def)

lemma example_result_not_null: "example_result \<noteq> JNull"
  by (simp add: example_result_def)

section \<open>Claims about the parsers\<close>

text \<open>
  C1 (chunk-boundary invariance). Whatever the stream and however it is cut into chunks, feeding
  the chunks to a streaming parser with an empty buffer through \<open>parse_chunk\<close> and then calling
  \<open>flush\<close> once gives what feeding the whole stream as one chunk gives: the same values yielded
  in the same order, and the same parser afterwards. When the parser classifies (it is not in raw
  mode, where it yields the lines themselves), the values yielded are exactly the events that
  \<open>parse_stream\<close> obtains, in the same order, from the whole stream parsed line by line, and the
  inner parser ends in the state \<open>parse_stream\<close> leaves its parser in. This holds of every stream,
  well-formed or not.
\<close>

theorem chunk_boundary_invariance:
  assumes \<open>buffer sp = []\<close>
  shows \<open>feed_and_flush E sp chunks = feed_and_flush E sp [concat chunks] \<and>
         (\<not> yield_raw (config sp) \<longrightarrow>
            snd (feed_and_flush E sp chunks) = parse_stream_events E (parser sp) (concat chunks) \<and>
            parser (fst (feed_and_flush E sp chunks)) = fst (parse_stream E (parser sp) (concat chunks)) \<and>
            buffer (fst (feed_and_flush E sp chunks)) = [])\<close>
proof (intro conjI impI)
  have sp: "sp = \<lparr>config = config sp, buffer = [], parser = parser sp\<rparr>"
    using assms by simp
  have l: "feed_and_flush E sp cs =
      (\<lparr>config = config sp, buffer = [],
        parser = fst (emit_lines E (config sp) (parser sp) (split_nl (concat cs)))\<rparr>,
       snd (emit_lines E (config sp) (parser sp) (split_nl (concat cs))))" for cs
    by (subst sp) (simp only: feed_and_flush_lines)
  show "feed_and_flush E sp chunks = feed_and_flush E sp [concat chunks]"
    by (simp add: l)
  assume raw: "\<not> yield_raw (config sp)"
  have r: "emit_lines E (config sp) (parser sp) (split_nl (concat chunks)) =
      run_lines E (parser sp) (split_nl (trim (concat chunks)))"
    using raw by (simp add: emit_lines_run_lines run_lines_trim)
  show "snd (feed_and_flush E sp chunks) = parse_stream_events E (parser sp) (concat chunks)"
    by (simp add: l r parse_stream_events_def run_lines_def)
  show "parser (fst (feed_and_flush E sp chunks)) = fst (parse_stream E (parser sp) (concat chunks))"
    by (simp add: l r parse_stream_def run_lines_def Let_def)
  show "buffer (fst (feed_and_flush E sp chunks)) = []"
    by (simp add: l)
qed

theorem chunk_boundary_invariance_witness:
  \<open>buffer (new_streaming_parser None) = [] \<and>
   \<not> yield_raw (config (new_streaming_parser None)) \<and>
   snd (feed_and_flush example_env (new_streaming_parser None) (map (\<lambda>c. [c]) example_stream)) =
     parse_stream_events example_env new_parser example_stream \<and>
   parse_stream_events example_env new_parser example_stream = [example_init, example_result]\<close>
proof -
  have h1: \<open>\<not> yield_raw (config (new_streaming_parser None))\<close>
    by (simp add: new_streaming_parser_def DEFAULT_STREAM_CONFIG_def)
  have h2: \<open>buffer (new_streaming_parser None) = []\<close>
    by (simp add: new_streaming_parser_def)
  have c: \<open>concat (map (\<lambda>c. [c]) example_stream) = example_stream\<close>
    by simp
  have p: \<open>parser (new_streaming_parser None) = new_parser\<close>
    by (simp add: new_streaming_parser_def)
  have e: \<open>parse_stream_events example_env new_parser example_stream = [example_init, example_result]\<close>
    by (simp add: parse_stream_events_def example_stream_split parse_line_example_init
        parse_line_example_result example_init_not_null example_result_not_null)
  from chunk_boundary_invariance [OF h2, of example_env \<open>map (\<lambda>c. [c]) example_stream\<close>] h1
  have \<open>snd (feed_and_flush example_env (new_streaming_parser None) (map (\<lambda>c. [c]) example_stream)) =
     parse_stream_events example_env new_parser example_stream\<close>
    unfolding c p by blast
  with h1 h2 e show ?thesis by blast
qed

text \<open>
  C2 (rejection is silent and leaves no trace). In every parser state and whatever \<open>JSON.parse\<close>
  does, \<open>parse_line\<close> on a blank line, on the line \<open>not json\<close> (with or without its quotation
  marks), on the truncated line \<open>{"type":"assistant"\<close>, and on any line that after trimming does not
  start with \<open>{\<close> or does not end with \<open>}\<close>, returns \<open>null\<close> and gives back the parser state it
  was called in, with every field as it was; so the next line parses exactly as it would have
  without the rejected one.
\<close>

theorem rejection_is_silent:
  assumes \<open>(\<forall>c\<in>set line. is_ws c) \<or> line = js ''not json'' \<or> line = js ''"not json"'' \<or>
           line = js ''{"type":"assistant"'' \<or>
           \<not> startsWith (trim line) (js ''{'') \<or> \<not> endsWith (trim line) (js ''}'')\<close>
  shows \<open>parse_line E p line = (p, JNull) \<and>
         parse_line E (fst (parse_line E p line)) next_line = parse_line E p next_line\<close>
proof -
  have \<open>trim line = [] \<or> \<not> startsWith (trim line) (js ''{'') \<or> \<not> endsWith (trim line) (js ''}'')\<close>
    using assms
  proof (elim disjE)
    assume \<open>\<forall>c\<in>set line. is_ws c\<close>
    then show ?thesis by (simp add: trim_blank)
  next
    assume \<open>line = js ''not json''\<close>
    then show ?thesis by (simp add: trim_not_json) (simp add: startsWith_def js_def)
  next
    assume \<open>line = js ''"not json"''\<close>
    then show ?thesis by (simp add: trim_quoted_not_json) (simp add: startsWith_def js_def)
  next
    assume \<open>line = js ''{"type":"assistant"''\<close>
    then show ?thesis by (simp add: trim_truncated) (simp add: endsWith_def js_def)
  qed simp_all
  then have \<open>parse_line E p line = (p, JNull)\<close> by (rule parse_line_prefilter)
  then show ?thesis by simp
qed

theorem rejection_is_silent_witness:
  \<open>list_all is_ws (js ''   '') \<and>
   parse_line example_env new_parser (js ''   '') = (new_parser, JNull) \<and>
   parse_line example_env new_parser (js ''not json'') = (new_parser, JNull) \<and>
   parse_line example_env new_parser (js ''{"type":"assistant"'') = (new_parser, JNull) \<and>
   parse_line example_env (fst (parse_line example_env new_parser (js ''{"type":"assistant"'')))
     example_init_line = parse_line example_env new_parser example_init_line \<and>
   snd (parse_line example_env new_parser example_init_line) = example_init\<close>
proof -
  have h: \<open>\<forall>c\<in>set (js ''   ''). is_ws c\<close> by (simp add: js_def is_ws_def)
  then have \<open>list_all is_ws (js ''   '')\<close> by (simp add: list_all_iff)
  then show ?thesis
    using h
      rejection_is_silent [of \<open>js ''   ''\<close> example_env new_parser example_init_line]
      rejection_is_silent [of \<open>js ''not json''\<close> example_env new_parser example_init_line]
      rejection_is_silent [of \<open>js ''{"type":"assistant"''\<close> example_env new_parser example_init_line]
    by (simp add: parse_line_example_init)
qed

text \<open>
  C3 (tool-result flattening). Take a line that passes the pre-filter and decodes to an object of
  type \<open>user\<close> whose message content is a sequence of blocks in the wire format: no block is
  \<open>null\<close>, and the raw content of each \<open>tool_result\<close> block is a string or a sequence of
  non-\<open>null\<close> blocks whose textual ones carry a string. Then \<open>parse_line\<close> returns a user response
  holding one tool result per \<open>tool_result\<close> block, in order, and the text of each is the
  flattening of the block's raw content: the string itself, or the concatenation, in order and
  with no separator, of the texts of the blocks of type \<open>text\<close>.
\<close>

theorem tool_result_flattening:
  assumes \<open>startsWith (trim line) (js ''{'')\<close> and \<open>endsWith (trim line) (js ''}'')\<close>
    and \<open>JSON_parse E (trim line) = Inr data\<close>
    and \<open>js_get data (js ''type'') = JStr (js ''user'')\<close>
    and \<open>js_get (js_get data (js ''message'')) (js ''content'') = JArr blocks\<close>
    and \<open>list_all wire_user_block blocks\<close>
  shows \<open>\<exists>response results.
           parse_line E p line =
             (p\<lparr>raw_lines := raw_lines p @ [trim line], events := events p @ [data],
                user_responses := user_responses p @ [response]\<rparr>, response) \<and>
           js_get (js_get response (js ''message'')) (js ''content'') = JArr results \<and>
           map (\<lambda>r. js_get r (js ''content'')) results =
           map (\<lambda>b. JStr (spec_flatten (js_get b (js ''content'')))) (filter is_tool_result blocks)\<close>
proof -
  from assms(1) have ne: "trim line \<noteq> []" by (auto simp: startsWith_def js_def)
  from assms(4) have d: "data \<noteq> JUndefined" "data \<noteq> JNull" by auto
  define m where "m = js_get data (js ''message'')"
  from assms(5) have mo: "truthy m" unfolding m_def [symmetric] by (cases m) auto
  from user_content_list_wire [OF assms(6), of E "[]"]
  obtain results where res: "user_content_list E [] blocks = Inr results"
    "map (\<lambda>r. js_get r (js ''content'')) results =
     map (\<lambda>b. JStr (spec_flatten (js_get b (js ''content'')))) (filter is_tool_result blocks)"
    by auto
  define response where "response = JObj [(js ''type'', JStr (js ''user'')),
      (js ''message'', JObj (set_prop (spread m) (js ''content'') (JArr results))),
      (js ''parent_tool_use_id'', js_get data (js ''parent_tool_use_id'')),
      (js ''session_id'', js_get data (js ''session_id''))]"
  have pu: "parse_user E data = Inr response"
    using d mo assms(5) res(1) unfolding m_def [symmetric]
    by (auto simp: parse_user_def and_then_def get_prop_def js_or_def Let_def response_def m_def)
  have ty: "JStr (js ''user'') \<noteq> JStr (js ''system'')" "JStr (js ''user'') \<noteq> JStr (js ''assistant'')"
    by (simp_all add: js_def)
  have cl: "classify E q data = Inr (q\<lparr>user_responses := user_responses q @ [response]\<rparr>, response)" for q
    using d assms(4) pu ty by (simp add: classify_def and_then_def get_prop_def)
  have "parse_line E p line =
      (p\<lparr>raw_lines := raw_lines p @ [trim line], events := events p @ [data],
         user_responses := user_responses p @ [response]\<rparr>, response)"
    using ne assms(1,2,3) by (simp add: parse_line_def Let_def cl)
  moreover have "js_get (js_get response (js ''message'')) (js ''content'') = JArr results"
  proof -
    have "js_get response (js ''message'') = JObj (set_prop (spread m) (js ''content'') (JArr results))"
      by (simp add: response_def) (simp add: js_def)
    then show ?thesis by (simp add: map_of_set_prop)
  qed
  ultimately show ?thesis using res(2) by blast
qed

theorem tool_result_flattening_witness:
  \<open>startsWith (trim example_user_line) (js ''{'') \<and> endsWith (trim example_user_line) (js ''}'') \<and>
   JSON_parse example_env (trim example_user_line) = Inr example_user \<and>
   js_get example_user (js ''type'') = JStr (js ''user'') \<and>
   js_get (js_get example_user (js ''message'')) (js ''content'') = JArr example_user_blocks \<and>
   list_all wire_user_block example_user_blocks \<and>
   (\<exists>response results.
      snd (parse_line example_env new_parser example_user_line) = response \<and>
      js_get (js_get response (js ''message'')) (js ''content'') = JArr results \<and>
      map (\<lambda>r. js_get r (js ''content'')) results = [JStr (js ''ab''), JStr (js ''plain'')])\<close>
proof -
  have h1: \<open>startsWith (trim example_user_line) (js ''{'')\<close>
    unfolding ex_user_trim by (simp add: startsWith_def example_user_line_def js_def)
  have h2: \<open>endsWith (trim example_user_line) (js ''}'')\<close>
    unfolding ex_user_trim by (simp add: endsWith_def example_user_line_def js_def)
  have h3: \<open>JSON_parse example_env (trim example_user_line) = Inr example_user\<close>
    unfolding ex_user_trim by (rule ex_user_parse)
  have h4: \<open>js_get example_user (js ''type'') = JStr (js ''user'')\<close>
    by (simp add: example_user_def)
  have h5: \<open>js_get (js_get example_user (js ''message'')) (js ''content'') = JArr example_user_blocks\<close>
    by (simp add: example_user_def) (simp add: js_def)
  have h6: \<open>list_all wire_user_block example_user_blocks\<close>
    by (simp add: example_user_blocks_def wire_user_block_def nullish_def is_tool_result_def
        is_text_block_def) (simp add: js_def)
  have flat: \<open>map (\<lambda>b. JStr (spec_flatten (js_get b (js ''content''))))
      (filter is_tool_result example_user_blocks) = [JStr (js ''ab''), JStr (js ''plain'')]\<close>
    by (simp add: example_user_blocks_def is_tool_result_def is_text_block_def) (simp add: js_def)
  from tool_result_flattening [OF h1 h2 h3 h4 h5 h6, of new_parser]
  show ?thesis using h1 h2 h3 h4 h5 h6 unfolding flat by auto
qed

text \<open>
  C4 (fail-safe result summary), evaluated on the code: the line
  \<open>{"type":"result","subtype":"success"}\<close> is stored as it was decoded. Its \<open>is_error\<close> and its
  numeric fields stay \<open>undefined\<close>, none is given a default, and \<open>was_successful\<close> answers
  \<open>true\<close>.
\<close>

theorem bare_result_reported_successful:
  \<open>parse_line example_env new_parser bare_result_line =
     (new_parser\<lparr>raw_lines := [bare_result_line], events := [bare_result],
        result_summary := bare_result\<rparr>, bare_result) \<and>
   js_get (result_summary (fst (parse_line example_env new_parser bare_result_line))) (js ''is_error'')
     = JUndefined \<and>
   js_get (result_summary (fst (parse_line example_env new_parser bare_result_line))) (js ''duration_ms'')
     = JUndefined \<and>
   js_get (result_summary (fst (parse_line example_env new_parser bare_result_line))) (js ''total_cost_usd'')
     = JUndefined \<and>
   was_successful (fst (parse_line example_env new_parser bare_result_line)) = Inr True\<close>
proof -
  have t: "trim bare_result_line = bare_result_line"
    by (rule trim_id) (simp_all add: bare_result_line_def js_def is_ws_def)
  have j: "JSON_parse example_env bare_result_line = Inr bare_result"
    by (simp add: example_env_def example_json_def)
       (simp add: bare_result_line_def example_result_line_def example_init_line_def
          example_user_line_def js_def)
  have c: "classify example_env q bare_result = Inr (q\<lparr>result_summary := bare_result\<rparr>, bare_result)" for q
    by (simp add: classify_def and_then_def get_prop_def bare_result_def) (simp add: js_def)
  have f: "startsWith bare_result_line (js ''{'')" "endsWith bare_result_line (js ''}'')"
    "bare_result_line \<noteq> []"
    by (simp_all add: startsWith_def endsWith_def bare_result_line_def js_def)
  have p: "parse_line example_env new_parser bare_result_line =
     (new_parser\<lparr>raw_lines := [bare_result_line], events := [bare_result],
        result_summary := bare_result\<rparr>, bare_result)"
    using f by (simp add: parse_line_def t j c Let_def new_parser_def)
  have g: "js_get bare_result (js ''is_error'') = JUndefined"
    "js_get bare_result (js ''duration_ms'') = JUndefined"
    "js_get bare_result (js ''total_cost_usd'') = JUndefined"
    "js_get bare_result (js ''subtype'') = JStr (js ''success'')"
    "bare_result \<noteq> JUndefined" "bare_result \<noteq> JNull"
    by (simp_all add: bare_result_def) (simp_all add: js_def)
  show ?thesis
    by (simp add: p g was_successful_def and_then_def get_prop_def)
qed

text \<open>
  C5 (success predicate). \<open>was_successful\<close> answers \<open>true\<close> exactly when a result summary is
  present, its \<open>is_error\<close> is not truthy, and its \<open>subtype\<close> is the string \<open>success\<close>. With no
  summary it answers \<open>false\<close>. When \<open>is_error\<close> holds a boolean, as the type \<open>ResultSummary\<close>
  declares, it answers \<open>true\<close> if and only if \<open>is_error\<close> is \<open>false\<close> and the subtype is
  \<open>success\<close>, and \<open>false\<close> otherwise.
\<close>

theorem was_successful_iff:
  \<open>(was_successful p = Inr True \<longleftrightarrow>
      result_summary p \<noteq> JUndefined \<and> result_summary p \<noteq> JNull \<and>
      \<not> truthy (js_get (result_summary p) (js ''is_error'')) \<and>
      js_get (result_summary p) (js ''subtype'') = JStr (js ''success''))
   \<and> (result_summary p = JUndefined \<longrightarrow> was_successful p = Inr False)
   \<and> (\<forall>b. result_summary p \<noteq> JUndefined \<and> result_summary p \<noteq> JNull \<and>
          js_get (result_summary p) (js ''is_error'') = JBool b \<longrightarrow>
        was_successful p =
          Inr (b = False \<and> js_get (result_summary p) (js ''subtype'') = JStr (js ''success'')))\<close>
  by (auto simp: was_successful_def and_then_def get_prop_def)

theorem was_successful_iff_witness:
  \<open>result_summary new_parser = JUndefined \<and> was_successful new_parser = Inr False \<and>
   result_summary (new_parser\<lparr>result_summary := example_result\<rparr>) \<noteq> JUndefined \<and>
   result_summary (new_parser\<lparr>result_summary := example_result\<rparr>) \<noteq> JNull \<and>
   js_get (result_summary (new_parser\<lparr>result_summary := example_result\<rparr>)) (js ''is_error'')
     = JBool False \<and>
   was_successful (new_parser\<lparr>result_summary := example_result\<rparr>) = Inr True\<close>
proof -
  have g: "js_get example_result (js ''is_error'') = JBool False"
    "js_get example_result (js ''subtype'') = JStr (js ''success'')"
    "example_result \<noteq> JUndefined" "example_result \<noteq> JNull"
    by (simp_all add: example_result_def) (simp_all add: js_def)
  have n: "result_summary new_parser = JUndefined" by (simp add: new_parser_def)
  show ?thesis
    using was_successful_iff [of new_parser]
      was_successful_iff [of \<open>new_parser\<lparr>result_summary := example_result\<rparr>\<close>] g n
    by simp
qed

text \<open>
  C10 (cost query). \<open>get_cost\<close> answers \<open>null\<close> when no result summary was parsed, and also when
  the summary's \<open>total_cost_usd\<close> is 0; it answers a number exactly when a summary is present
  whose \<open>total_cost_usd\<close> is that number and is not 0.
\<close>

theorem get_cost_null_on_zero:
  \<open>(result_summary p = JUndefined \<longrightarrow> get_cost p = JNull)
   \<and> (js_get (result_summary p) (js ''total_cost_usd'') = JNum 0 \<longrightarrow> get_cost p = JNull)
   \<and> (\<forall>c. get_cost p = JNum c \<longleftrightarrow>
          result_summary p \<noteq> JUndefined \<and> result_summary p \<noteq> JNull \<and>
          js_get (result_summary p) (js ''total_cost_usd'') = JNum c \<and> c \<noteq> 0)\<close>
  by (auto simp: get_cost_def js_or_def optional_get_def)

theorem get_cost_null_on_zero_witness:
  \<open>result_summary new_parser = JUndefined \<and> get_cost new_parser = JNull \<and>
   js_get (result_summary (new_parser\<lparr>result_summary := zero_cost_result\<rparr>)) (js ''total_cost_usd'')
     = JNum 0 \<and>
   get_cost (new_parser\<lparr>result_summary := zero_cost_result\<rparr>) = JNull \<and>
   get_cost (new_parser\<lparr>result_summary := example_result\<rparr>) = JNum (1 / 100)\<close>
proof -
  have z: "js_get zero_cost_result (js ''total_cost_usd'') = JNum 0"
    by (simp add: zero_cost_result_def) (simp add: js_def)
  have g: "js_get example_result (js ''total_cost_usd'') = JNum (1 / 100)"
    "example_result \<noteq> JUndefined" "example_result \<noteq> JNull"
    by (simp_all add: example_result_def) (simp_all add: js_def)
  have n: "result_summary new_parser = JUndefined" by (simp add: new_parser_def)
  show ?thesis
    using get_cost_null_on_zero [of new_parser]
      get_cost_null_on_zero [of \<open>new_parser\<lparr>result_summary := zero_cost_result\<rparr>\<close>]
      get_cost_null_on_zero [of \<open>new_parser\<lparr>result_summary := example_result\<rparr>\<close>] z g n
    by simp
qed

section \<open>Claims about rate limiting and retry\<close>

lemma should_delay_nonneg: "0 \<le> snd (snd (should_delay now cfg s))"
  by (simp add: should_delay_def Let_def)

lemma should_delay_minute_reset:
  "60000 \<le> now - minute_reset_time s \<Longrightarrow>
   requests_this_minute (fst (should_delay now cfg s)) = 0 \<and>
   minute_reset_time (fst (should_delay now cfg s)) = now"
  by (simp add: should_delay_def Let_def)

lemma should_delay_hour_reset:
  "3600000 \<le> now - hour_reset_time s \<Longrightarrow>
   requests_this_hour (fst (should_delay now cfg s)) = 0 \<and>
   hour_reset_time (fst (should_delay now cfg s)) = now"
  by (simp add: should_delay_def Let_def)

lemma should_delay_flag:
  "fst (snd (should_delay now cfg s)) \<longleftrightarrow>
     requests_per_minute cfg \<le> real (requests_this_minute (fst (should_delay now cfg s))) \<or>
     requests_per_hour cfg \<le> real (requests_this_hour (fst (should_delay now cfg s)))"
  by (simp add: should_delay_def Let_def)

lemma should_delay_after_two:
  assumes "requests_per_minute cfg = 2"
    and "0 \<le> now - minute_reset_time s" and "now - minute_reset_time s < 60000"
  shows "fst (snd (should_delay now cfg (record_request t2 (record_request t1 s)))) \<and>
         0 < snd (snd (should_delay now cfg (record_request t2 (record_request t1 s)))) \<and>
         snd (snd (should_delay now cfg (record_request t2 (record_request t1 s)))) \<le> 60"
  using assms by (simp add: should_delay_def Let_def record_request_def)

lemma two_recorded_eq: "two_recorded = \<lparr>requests_this_minute = 2, requests_this_hour = 2,
     minute_reset_time = 0, hour_reset_time = 0, last_request_time = Some 2000\<rparr>"
  by (simp add: two_recorded_def record_request_def new_rate_limit_state_def)


text \<open>
  C8 (rate-limit windowing with lazy reset), as amended. With a ceiling of 2 requests a minute,
  after 2 recorded requests and within the minute window, \<open>should_delay\<close> reports a delay that is
  positive and at most 60 seconds. When the time since a window's start has reached the window
  length (60000 ms for the minute, 3600000 ms for the hour), the check sets that window's counter
  to 0 and its start to now. After the resets a delay is reported exactly when the minute counter
  has reached the minute ceiling or the hour counter the hour ceiling; so a check after the minute
  window has run out reports no delay when the minute ceiling is positive and the hour counter is
  below the hour ceiling. The delay returned is never negative.
\<close>

theorem rate_limit_windowing:
  \<open>(requests_per_minute cfg = 2 \<and> 0 \<le> now - minute_reset_time s \<and> now - minute_reset_time s < 60000 \<longrightarrow>
      fst (snd (should_delay now cfg (record_request t2 (record_request t1 s)))) \<and>
      0 < snd (snd (should_delay now cfg (record_request t2 (record_request t1 s)))) \<and>
      snd (snd (should_delay now cfg (record_request t2 (record_request t1 s)))) \<le> 60)
   \<and> (60000 \<le> now - minute_reset_time s \<longrightarrow>
        requests_this_minute (fst (should_delay now cfg s)) = 0 \<and>
        minute_reset_time (fst (should_delay now cfg s)) = now)
   \<and> (3600000 \<le> now - hour_reset_time s \<longrightarrow>
        requests_this_hour (fst (should_delay now cfg s)) = 0 \<and>
        hour_reset_time (fst (should_delay now cfg s)) = now)
   \<and> (fst (snd (should_delay now cfg s)) \<longleftrightarrow>
        requests_per_minute cfg \<le> real (requests_this_minute (fst (should_delay now cfg s))) \<or>
        requests_per_hour cfg \<le> real (requests_this_hour (fst (should_delay now cfg s))))
   \<and> (60000 \<le> now - minute_reset_time s \<and> 0 < requests_per_minute cfg \<and>
        real (requests_this_hour s) < requests_per_hour cfg \<longrightarrow>
        should_delay now cfg s =
          (fst (should_delay now cfg s), False, 0))
   \<and> 0 \<le> snd (snd (should_delay now cfg s))\<close>
proof (intro conjI impI)
  assume "requests_per_minute cfg = 2 \<and> 0 \<le> now - minute_reset_time s \<and> now - minute_reset_time s < 60000"
  then have a: "fst (snd (should_delay now cfg (record_request t2 (record_request t1 s)))) \<and>
         0 < snd (snd (should_delay now cfg (record_request t2 (record_request t1 s)))) \<and>
         snd (snd (should_delay now cfg (record_request t2 (record_request t1 s)))) \<le> 60"
    using should_delay_after_two [of cfg now s t2 t1] by blast
  from a show "fst (snd (should_delay now cfg (record_request t2 (record_request t1 s))))" by blast
  from a show "0 < snd (snd (should_delay now cfg (record_request t2 (record_request t1 s))))" by blast
  from a show "snd (snd (should_delay now cfg (record_request t2 (record_request t1 s)))) \<le> 60" by blast
next
  assume "60000 \<le> now - minute_reset_time s \<and> 0 < requests_per_minute cfg \<and>
        real (requests_this_hour s) < requests_per_hour cfg"
  then show "should_delay now cfg s = (fst (should_delay now cfg s), False, 0)"
    by (simp add: should_delay_def Let_def)
qed (simp_all add: should_delay_minute_reset should_delay_hour_reset should_delay_nonneg
      should_delay_flag [symmetric])

theorem rate_limit_windowing_witness:
  \<open>requests_per_minute two_per_minute = 2 \<and>
   should_delay 30000 two_per_minute two_recorded = (two_recorded, True, 30) \<and>
   should_delay 61000 (two_per_minute\<lparr>requests_per_hour := 1000\<rparr>) two_recorded =
     (two_recorded\<lparr>requests_this_minute := 0, minute_reset_time := 61000\<rparr>, False, 0) \<and>
   requests_this_hour (fst (should_delay 3600000 two_per_minute two_recorded)) = 0\<close>
proof -
  have a: "should_delay 30000 two_per_minute two_recorded = (two_recorded, True, 30)"
    by (simp add: should_delay_def Let_def two_recorded_eq two_per_minute_def)
  have b: "should_delay 61000 (two_per_minute\<lparr>requests_per_hour := 1000\<rparr>) two_recorded =
     (two_recorded\<lparr>requests_this_minute := 0, minute_reset_time := 61000\<rparr>, False, 0)"
    by (simp add: should_delay_def Let_def two_recorded_eq two_per_minute_def)
  have c: "requests_per_minute two_per_minute = 2" by (simp add: two_per_minute_def)
  show ?thesis
    using a b c
      rate_limit_windowing [of two_per_minute 3600000 two_recorded 0 0]
    by (simp add: two_recorded_eq)
qed

text \<open>
  C8 as stated fails: with both ceilings at 2 and two requests recorded, a check 61 seconds after
  the start of the windows resets the minute window and still reports a delay, of 3539 seconds,
  because the hour counter is at its ceiling.
\<close>

theorem no_delay_after_window_counterexample:
  \<open>60000 < 61000 - minute_reset_time two_recorded \<and>
   should_delay 61000 two_per_minute two_recorded =
     (two_recorded\<lparr>requests_this_minute := 0, minute_reset_time := 61000\<rparr>, True, 3539)\<close>
  by (simp add: should_delay_def Let_def two_recorded_eq two_per_minute_def)


text \<open>
  C9 (retry backoff delay). For every attempt number \<open>n\<close> the delay computed is
  \<open>min (initial_delay * exponential_base ^ n) max_delay\<close>; with \<open>initial_delay = 1\<close>,
  \<open>exponential_base = 2\<close> and \<open>max_delay = 60\<close>, attempts 0 to 6 give 1, 2, 4, 8, 16, 32 and 60.
\<close>

theorem retry_backoff_delay:
  \<open>calculate_retry_delay a n =
     min (initial_delay (retry (api_config a)) * exponential_base (retry (api_config a)) ^ n)
         (max_delay (retry (api_config a)))
   \<and> (initial_delay (retry (api_config a)) = 1 \<and> exponential_base (retry (api_config a)) = 2 \<and>
        max_delay (retry (api_config a)) = 60 \<longrightarrow>
        map (calculate_retry_delay a) [0, 1, 2, 3, 4, 5, 6] = [1, 2, 4, 8, 16, 32, 60])\<close>
  by (simp add: calculate_retry_delay_def)

theorem retry_backoff_delay_witness:
  \<open>initial_delay (retry (api_config default_api)) = 1 \<and>
   exponential_base (retry (api_config default_api)) = 2 \<and>
   max_delay (retry (api_config default_api)) = 60 \<and>
   map (calculate_retry_delay default_api) [0, 1, 2, 3, 4, 5, 6] = [1, 2, 4, 8, 16, 32, 60]\<close>
  using retry_backoff_delay [of default_api 0]
  by (simp add: default_api_def DEFAULT_RETRY_CONFIG_def)


section \<open>Claims about the execution controller\<close>

declare execute_loop.simps [simp del]
declare data_loop.simps [simp del]

lemma add_response_session_id: "session_id (fst (add_response E t s r)) = session_id s"
  by (simp add: add_response_def Let_def split: sum.splits)

lemma add_responses_session_id: "session_id (fst (add_responses E W s n rs)) = session_id s"
proof (induction rs arbitrary: s n)
  case Nil
  then show ?case by simp
next
  case (Cons r rs)
  show ?case
  proof (cases "add_response E (clock W n) s r")
    case (Pair s' e)
    then have "session_id s' = session_id s"
      using add_response_session_id [of E "clock W n" s r] by simp
    with Pair Cons.IH [of s' "Suc n"] show ?thesis by (cases e) simp_all
  qed
qed

lemma session_check_rate_limit [simp]: "session (check_rate_limit W a) = session a"
  by (simp add: check_rate_limit_def split: option.splits prod.splits)

lemma session_record_if_limited [simp]: "session (record_if_limited W a) = session a"
  by (simp add: record_if_limited_def split: option.splits)

lemma update_session_sets_id:
  assumes "update_session E W a response = (a', None)" "session a \<noteq> None"
    "truthy (system_init response)"
  shows "map_option session_id (session a') = Some (js_get (system_init response) (js ''session_id''))"
proof -
  from assms(2) obtain s where s: "session a = Some s" by auto
  define s1 where "s1 = s\<lparr>session_id := js_get (system_init response) (js ''session_id'')\<rparr>"
  obtain s2 n2 e2 where r2: "add_responses E W s1 (clock_reads a) (assistant_responses response) = (s2, n2, e2)"
    by (cases "add_responses E W s1 (clock_reads a) (assistant_responses response)") auto
  obtain s3 n3 e3 where r3: "add_responses E W s2 n2 (user_responses response) = (s3, n3, e3)"
    by (cases "add_responses E W s2 n2 (user_responses response)") auto
  have i2: "session_id s2 = session_id s1"
    using add_responses_session_id [of E W s1 "clock_reads a" "assistant_responses response"] r2 by simp
  have i3: "session_id s3 = session_id s2"
    using add_responses_session_id [of E W s2 n2 "user_responses response"] r3 by simp
  show ?thesis
    using assms(1,3) s r2 r3 i2 i3
    by (auto simp: update_session_def Let_def s1_def split: option.splits if_splits)
qed

lemma update_session_session:
  "session (fst (update_session E W a response)) \<noteq> None \<longleftrightarrow> session a \<noteq> None"
  by (simp add: update_session_def Let_def split: option.splits prod.splits)

lemma execute_attempt_sets_id:
  assumes "execute_attempt E W a n = (a', Inr response)" "session a \<noteq> None"
    "truthy (system_init response)"
  shows "map_option session_id (session a') = Some (js_get (system_init response) (js ''session_id''))"
proof (cases "run_command W n")
  case (Inl e)
  with assms(1) show ?thesis by (simp add: execute_attempt_def Let_def)
next
  case (Inr stdout)
  define a2 where "a2 = record_if_limited W (check_rate_limit W a)"
  obtain a3 e where u: "update_session E W a2 (parse_claude_stream E stdout) = (a3, e)"
    by (cases "update_session E W a2 (parse_claude_stream E stdout)") auto
  from assms(1) Inr u have e: "e = None" and a': "a' = a3" and resp: "response = parse_claude_stream E stdout"
    by (auto simp: execute_attempt_def Let_def a2_def split: option.splits if_splits)
  have "session a2 \<noteq> None" using assms(2) by (simp add: a2_def)
  from update_session_sets_id [OF u [unfolded e] this] assms(3) resp a'
  show ?thesis by simp
qed

lemma execute_attempt_session:
  "session (fst (execute_attempt E W a n)) \<noteq> None \<longleftrightarrow> session a \<noteq> None"
proof (cases "run_command W n")
  case (Inl e)
  then show ?thesis by (simp add: execute_attempt_def Let_def)
next
  case (Inr stdout)
  define a2 where "a2 = record_if_limited W (check_rate_limit W a)"
  have s2: "session a2 \<noteq> None \<longleftrightarrow> session a \<noteq> None" by (simp add: a2_def)
  obtain a3 e where u: "update_session E W a2 (parse_claude_stream E stdout) = (a3, e)"
    by (cases "update_session E W a2 (parse_claude_stream E stdout)") auto
  then have "session a3 \<noteq> None \<longleftrightarrow> session a2 \<noteq> None"
    using update_session_session [of E W a2 "parse_claude_stream E stdout"] by simp
  moreover have "fst (execute_attempt E W a n) = a3"
    using Inr u by (simp add: execute_attempt_def Let_def a2_def split: option.splits)
  ultimately show ?thesis using s2 by simp
qed

lemma execute_loop_sets_id:
  "execute_loop E W a n le = (a', Inr response) \<Longrightarrow> session a \<noteq> None \<Longrightarrow>
   truthy (system_init response) \<Longrightarrow>
   map_option session_id (session a') = Some (js_get (system_init response) (js ''session_id''))"
proof (induction E W a n le rule: execute_loop.induct)
  case (1 E W a attempt last_error)
  show ?case
  proof (cases "int attempt \<le> max_retries (retry (api_config a))")
    case False
    with "1.prems"(1) show ?thesis by (simp add: execute_loop.simps [of E W a attempt])
  next
    case True
    obtain a1 r where att: "execute_attempt E W a attempt = (a1, r)"
      by (cases "execute_attempt E W a attempt") auto
    show ?thesis
    proof (cases r)
      case (Inr resp)
      with True att "1.prems"(1) have "a' = a1" "response = resp"
        by (simp_all add: execute_loop.simps [of E W a attempt])
      with att Inr execute_attempt_sets_id [of E W a attempt a' response] "1.prems"(2,3)
      show ?thesis by simp
    next
      case (Inl err)
      show ?thesis
      proof (cases "should_retry a1 err \<and> int attempt < max_retries (retry (api_config a1))")
        case False
        with True att Inl "1.prems"(1) show ?thesis
          by (simp add: execute_loop.simps [of E W a attempt])
      next
        case retry: True
        with True att Inl "1.prems"(1)
        have next_run: "execute_loop E W a1 (Suc attempt) (Some err) = (a', Inr response)"
          by (simp add: execute_loop.simps [of E W a attempt])
        have s1: "session a1 \<noteq> None"
          using execute_attempt_session [of E W a attempt] att "1.prems"(2) by simp
        from "1.IH" [OF True att [symmetric] Inl retry next_run s1 "1.prems"(3)]
        show ?thesis .
      qed
    qed
  qed
qed


lemma rate_limiter_update_session:
  "rate_limiter (fst (update_session E W a response)) = rate_limiter a"
  by (simp add: update_session_def Let_def split: option.splits prod.splits)

lemma rate_limiter_stream_events:
  "rate_limiter (fst (stream_events E W a evs)) = rate_limiter a"
proof (induction evs arbitrary: a)
  case Nil
  then show ?case by simp
next
  case (Cons ev evs)
  show ?case
  proof (cases "session a")
    case None
    then show ?thesis using Cons.IH [of a] by (simp add: case_prod_beta)
  next
    case (Some s)
    obtain s' e where ar: "add_response E (clock W (clock_reads a)) s ev = (s', e)"
      by (cases "add_response E (clock W (clock_reads a)) s ev") auto
    show ?thesis
      using Some ar Cons.IH [of a]
        Cons.IH [of "a\<lparr>session := Some s', clock_reads := Suc (clock_reads a)\<rparr>"]
      by (cases e) (simp_all add: case_prod_beta)
  qed
qed

lemma rate_limiter_execute_attempt_failed:
  "run_command W n = Inl error \<Longrightarrow>
   execute_attempt E W a n = (check_rate_limit W a, Inl error)"
  by (simp add: execute_attempt_def Let_def)

lemma rate_limiter_execute_attempt_ran:
  assumes "run_command W n = Inr stdout"
  shows "rate_limiter (fst (execute_attempt E W a n)) =
    rate_limiter (record_if_limited W (check_rate_limit W a))"
proof -
  define a2 where "a2 = record_if_limited W (check_rate_limit W a)"
  obtain a3 e where u: "update_session E W a2 (parse_claude_stream E stdout) = (a3, e)"
    by (cases "update_session E W a2 (parse_claude_stream E stdout)") auto
  then have "rate_limiter a3 = rate_limiter a2"
    using rate_limiter_update_session [of E W a2 "parse_claude_stream E stdout"] by simp
  moreover have "fst (execute_attempt E W a n) = a3"
    using assms u by (simp add: execute_attempt_def Let_def a2_def split: option.splits)
  ultimately show ?thesis by (simp add: a2_def)
qed

lemma rate_limiter_execute_stream:
  "rate_limiter (fst (execute_stream E W a proc)) =
    rate_limiter (record_if_limited W (check_rate_limit W a))"
proof -
  define a2 where "a2 = record_if_limited W (check_rate_limit W a)"
  obtain p queued perr where it: "event_iterator E new_parser proc = (p, queued, perr)"
    by (cases "event_iterator E new_parser proc") auto
  obtain a3 yielded err where se: "stream_events E W a2 queued = (a3, yielded, err)"
    by (cases "stream_events E W a2 queued") auto
  then have "rate_limiter a3 = rate_limiter a2"
    using rate_limiter_stream_events [of E W a2 queued] by simp
  moreover have "rate_limiter (fst (execute_stream E W a proc)) = rate_limiter a3"
    using it se by (simp add: execute_stream_def Let_def a2_def [symmetric] split: option.splits)
  ultimately show ?thesis by (simp add: a2_def)
qed

lemma limiter_checked_and_recorded:
  assumes "rate_limiter a = Some rl" and "enabled (rate_limit (api_config a))"
  shows "rate_limiter (check_rate_limit W a) =
           Some (fst (should_delay (clock W (clock_reads a)) (rate_limit (api_config a)) rl))"
    and "rate_limiter (record_if_limited W (check_rate_limit W a)) =
           Some (record_request (clock W (Suc (clock_reads a)))
             (fst (should_delay (clock W (clock_reads a)) (rate_limit (api_config a)) rl)))"
  using assms
  by (simp_all add: check_rate_limit_def record_if_limited_def split: prod.splits)

lemma parse_claude_stream_example:
  "parse_claude_stream example_env example_stream = example_response"
  by (simp add: parse_claude_stream_def parse_stream_def Let_def example_stream_split
      parse_line_example_init parse_line_example_result example_response_def new_parser_def)


lemma default_api_limiter:
  "rate_limiter default_api = Some (new_rate_limit_state 0 0)"
  "enabled (rate_limit (api_config default_api))"
  "clock_reads default_api = 4"
  "rate_limit (api_config default_api) = DEFAULT_RATE_LIMIT_CONFIG"
  "enabled DEFAULT_RATE_LIMIT_CONFIG"
  by (simp_all add: default_api_def DEFAULT_RATE_LIMIT_CONFIG_def)

lemma should_delay_fresh:
  "should_delay 4000 DEFAULT_RATE_LIMIT_CONFIG (new_rate_limit_state 0 0) =
     (new_rate_limit_state 0 0, False, 0)"
  by (simp add: should_delay_def Let_def new_rate_limit_state_def DEFAULT_RATE_LIMIT_CONFIG_def)

lemma execute_attempt_failing:
  "execute_attempt example_env failing_world default_api 0 =
     (default_api\<lparr>clock_reads := 5\<rparr>, Inl (JsError (js ''Error'')))"
proof -
  have "check_rate_limit failing_world default_api = default_api\<lparr>clock_reads := 5\<rparr>"
    by (simp add: check_rate_limit_def default_api_limiter should_delay_fresh failing_world_def)
  then show ?thesis
    by (simp add: execute_attempt_def Let_def failing_world_def)
qed

lemma execute_resumed:
  "execute example_env example_world resumed_api =
     (resumed_api\<lparr>clock_reads := 6,
        rate_limiter := Some (record_request 5000 (new_rate_limit_state 0 0)),
        session := Some ((new_session 0 0)\<lparr>session_id := JStr (js ''s1''),
           total_cost := JNum (1 / 100)\<rparr>)\<rparr>, Inr example_response)"
proof -
  define lim where "lim = record_request 5000 (new_rate_limit_state 0 0)"
  have m: "max_retries (retry (api_config resumed_api)) = 3"
    by (simp add: resumed_api_def default_api_def DEFAULT_RETRY_CONFIG_def)
  have ck: "check_rate_limit example_world resumed_api = resumed_api\<lparr>clock_reads := 5\<rparr>"
    by (simp add: check_rate_limit_def resumed_api_def default_api_limiter should_delay_fresh
        example_world_def)
  have rc: "record_if_limited example_world (resumed_api\<lparr>clock_reads := 5\<rparr>) =
      resumed_api\<lparr>clock_reads := 6, rate_limiter := Some lim\<rparr>"
    by (simp add: record_if_limited_def resumed_api_def default_api_def example_world_def lim_def)
  have g: "js_get example_init (js ''session_id'') = JStr (js ''s1'')"
    "js_get example_result (js ''total_cost_usd'') = JNum (1 / 100)"
    by (simp_all add: example_init_def example_result_def) (simp_all add: js_def)
  have tr: "truthy example_init" "truthy example_result"
    by (simp_all add: example_init_def example_result_def)
  have us: "update_session example_env example_world
      (resumed_api\<lparr>clock_reads := 6, rate_limiter := Some lim\<rparr>) example_response =
      (resumed_api\<lparr>clock_reads := 6, rate_limiter := Some lim,
        session := Some ((new_session 0 0)\<lparr>session_id := JStr (js ''s1''),
           total_cost := JNum (1 / 100)\<rparr>)\<rparr>, None)"
    by (simp add: update_session_def Let_def example_response_def g tr resumed_api_def default_api_def
        new_session_def example_env_def)
  have sv: "\<not> saves_session (resumed_api\<lparr>clock_reads := 6, rate_limiter := Some lim,
        session := Some ((new_session 0 0)\<lparr>session_id := JStr (js ''s1''),
           total_cost := JNum (1 / 100)\<rparr>)\<rparr>)"
    by (simp add: saves_session_def resumed_api_def default_api_def)
  have rcw: "run_command example_world 0 = Inr example_stream"
    by (simp add: example_world_def)
  have at: "execute_attempt example_env example_world resumed_api 0 =
     (resumed_api\<lparr>clock_reads := 6, rate_limiter := Some lim,
        session := Some ((new_session 0 0)\<lparr>session_id := JStr (js ''s1''),
           total_cost := JNum (1 / 100)\<rparr>)\<rparr>, Inr example_response)"
    by (simp add: execute_attempt_def Let_def ck rcw rc parse_claude_stream_example us sv)
  show ?thesis
    unfolding lim_def [symmetric]
    by (simp add: execute_def execute_loop.simps [of _ _ resumed_api 0] m at)
qed


text \<open>
  C6 (recording of requests by the rate limiter), as amended. With rate limiting enabled, an
  attempt of \<open>execute\<close> whose command fails leaves the limiter as the rate-limit check left it:
  nothing is recorded. An attempt whose command completes is recorded exactly once, after the
  command has returned: both window counters are one higher than the check left them and the
  last-request time is the time of the recording. \<open>execute_stream\<close> records its request exactly
  once, right after the process is started, however the run of the process ends.
\<close>

theorem request_recorded_once_command_ran:
  assumes \<open>rate_limiter a = Some rl\<close> and \<open>enabled (rate_limit (api_config a))\<close>
  shows \<open>let checked = fst (should_delay (clock W (clock_reads a)) (rate_limit (api_config a)) rl);
             t = clock W (Suc (clock_reads a))
         in (\<forall>error. run_command W n = Inl error \<longrightarrow>
               rate_limiter (fst (execute_attempt E W a n)) = Some checked)
          \<and> (\<forall>stdout. run_command W n = Inr stdout \<longrightarrow>
               rate_limiter (fst (execute_attempt E W a n)) = Some (record_request t checked))
          \<and> rate_limiter (fst (execute_stream E W a proc)) = Some (record_request t checked)
          \<and> requests_this_minute (record_request t checked) = requests_this_minute checked + 1
          \<and> requests_this_hour (record_request t checked) = requests_this_hour checked + 1
          \<and> last_request_time (record_request t checked) = Some t\<close>
  using limiter_checked_and_recorded [OF assms, of W]
  by (auto simp: Let_def rate_limiter_execute_attempt_failed rate_limiter_execute_attempt_ran
      rate_limiter_execute_stream record_request_def)

theorem request_recorded_once_command_ran_witness:
  \<open>rate_limiter default_api = Some (new_rate_limit_state 0 0) \<and>
   enabled (rate_limit (api_config default_api)) \<and>
   run_command failing_world 0 = Inl (JsError (js ''Error'')) \<and>
   run_command example_world 0 = Inr example_stream \<and>
   rate_limiter (fst (execute_attempt example_env failing_world default_api 0)) =
     Some (new_rate_limit_state 0 0) \<and>
   rate_limiter (fst (execute_attempt example_env example_world default_api 0)) =
     Some \<lparr>requests_this_minute = 1, requests_this_hour = 1, minute_reset_time = 0,
           hour_reset_time = 0, last_request_time = Some 5000\<rparr> \<and>
   rate_limiter (fst (execute_stream example_env example_world default_api example_run)) =
     Some \<lparr>requests_this_minute = 1, requests_this_hour = 1, minute_reset_time = 0,
           hour_reset_time = 0, last_request_time = Some 5000\<rparr>\<close>
proof -
  have f: \<open>run_command failing_world 0 = Inl (JsError (js ''Error''))\<close>
    by (simp add: failing_world_def)
  have r: \<open>run_command example_world 0 = Inr example_stream\<close>
    by (simp add: example_world_def)
  have c: \<open>clock failing_world 4 = 4000\<close> \<open>clock example_world 4 = 4000\<close>
    \<open>clock example_world 5 = 5000\<close>
    by (simp_all add: failing_world_def example_world_def)
  have rr: \<open>record_request 5000 (new_rate_limit_state 0 0) =
      \<lparr>requests_this_minute = 1, requests_this_hour = 1, minute_reset_time = 0,
       hour_reset_time = 0, last_request_time = Some 5000\<rparr>\<close>
    by (simp add: record_request_def new_rate_limit_state_def)
  show ?thesis
    using request_recorded_once_command_ran [OF default_api_limiter(1,2), of failing_world 0 example_env example_run]
      request_recorded_once_command_ran [OF default_api_limiter(1,2), of example_world 0 example_env example_run]
    by (simp add: Let_def default_api_limiter f r c should_delay_fresh rr)
qed


text \<open>
  C6 as stated fails: rate limiting is enabled, the only attempt of \<open>execute\<close> fails with an
  error that is not retried, and afterwards both counters are still 0 and no request time is
  stamped.
\<close>

theorem failed_attempt_not_recorded_counterexample:
  \<open>enabled (rate_limit (api_config default_api)) \<and>
   map_option requests_this_minute (rate_limiter default_api) = Some 0 \<and>
   snd (execute example_env failing_world default_api) = Inl (JsError (js ''Error'')) \<and>
   map_option requests_this_minute (rate_limiter (fst (execute example_env failing_world default_api))) = Some 0 \<and>
   map_option requests_this_hour (rate_limiter (fst (execute example_env failing_world default_api))) = Some 0 \<and>
   map_option last_request_time (rate_limiter (fst (execute example_env failing_world default_api))) = Some None\<close>
proof -
  have nr: "\<not> should_retry (default_api\<lparr>clock_reads := 5\<rparr>) (JsError (js ''Error''))"
    by (simp add: should_retry_def default_api_def DEFAULT_RETRY_CONFIG_def) (simp add: js_def)
  have m: "max_retries (retry (api_config default_api)) = 3"
    by (simp add: default_api_def DEFAULT_RETRY_CONFIG_def)
  have e: "execute example_env failing_world default_api =
      (default_api\<lparr>clock_reads := 5\<rparr>, Inl (JsError (js ''Error'')))"
    by (simp add: execute_def execute_loop.simps [of _ _ default_api 0] m execute_attempt_failing nr)
  show ?thesis
    by (simp add: e default_api_limiter) (simp add: default_api_def new_rate_limit_state_def)
qed


text \<open>
  C7 (session identifier), as amended. When \<open>execute\<close> completes with a response that has a
  \<open>SessionInit\<close> and a session is attached, the session's identifier afterwards is the
  identifier of that \<open>SessionInit\<close>, whatever identifier the session held before.
\<close>

theorem session_id_overwritten:
  assumes \<open>execute E W a = (a', Inr response)\<close> and \<open>session a \<noteq> None\<close>
    and \<open>truthy (system_init response)\<close>
  shows \<open>map_option session_id (session a') = Some (js_get (system_init response) (js ''session_id''))\<close>
  using assms unfolding execute_def by (rule execute_loop_sets_id)

theorem session_id_overwritten_witness:
  \<open>snd (execute example_env example_world resumed_api) = Inr example_response \<and>
   session resumed_api \<noteq> None \<and> truthy (system_init example_response) \<and>
   map_option session_id (session (fst (execute example_env example_world resumed_api))) =
     Some (js_get (system_init example_response) (js ''session_id''))\<close>
proof -
  have e: \<open>execute example_env example_world resumed_api =
      (fst (execute example_env example_world resumed_api), Inr example_response)\<close>
    by (simp add: execute_resumed)
  have s: \<open>session resumed_api \<noteq> None\<close> by (simp add: resumed_api_def)
  have t: \<open>truthy (system_init example_response)\<close>
    by (simp add: example_response_def example_init_def)
  from session_id_overwritten [OF e s t] show ?thesis
    using s t by (simp add: execute_resumed)
qed


text \<open>
  C7 as stated fails: a session that holds the identifier \<open>old\<close> holds \<open>s1\<close>, the identifier of
  the new run's \<open>SessionInit\<close>, after \<open>execute\<close> has completed.
\<close>

theorem existing_session_id_replaced_counterexample:
  \<open>map_option session_id (session resumed_api) = Some (JStr (js ''old'')) \<and>
   snd (execute example_env example_world resumed_api) = Inr example_response \<and>
   js_get (system_init example_response) (js ''session_id'') = JStr (js ''s1'') \<and>
   map_option session_id (session (fst (execute example_env example_world resumed_api))) =
     Some (JStr (js ''s1'')) \<and>
   JStr (js ''s1'') \<noteq> JStr (js ''old'')\<close>
  by (simp add: execute_resumed)
     (simp add: resumed_api_def example_response_def example_init_def js_def)



end
